theory Spec2Isabelle
  imports Main "HOL-Library.Word" "HOL-Library.Sublist" "HOL-Library.AList"
begin

section \<open>Go types as reflection sees them\<close>

text \<open>
  \<open>reflect.Type\<close> values are modelled as finite trees. A struct carries the text
  \<open>t.String()\<close> returns for it and its fields in declaration order; a field carries
  its declared name, its struct tag (key/value pairs, read with \<open>Tag.Get\<close>) and its type.
  Every kind the schema switch does not name (int8, uint, arrays, channels, ...) is
  \<open>TOther\<close>; interface and function types are kept apart because registration
  inspects them.
\<close>

datatype gotype =
    TString | TInt | TInt32 | TInt64 | TFloat32 | TFloat64 | TBool
  | TSlice gotype
  | TMap gotype gotype
  | TStruct string "field list"
  | TPtr gotype
  | TFunc "gotype list" "gotype list"
  | TInterface string
  | TOther string
and field = Field (fname: string) (ftag: "(string \<times> string) list") (ftype: gotype)

text \<open>\<open>field.Tag.Get(key)\<close>: the value stored under the key, the empty string when absent.\<close>

definition Tag_Get :: "(string \<times> string) list \<Rightarrow> string \<Rightarrow> string" where
  "Tag_Get tag key = (case map_of tag key of None \<Rightarrow> [] | Some v \<Rightarrow> v)"

text \<open>\<open>if t.Kind() == reflect.Ptr { t = t.Elem() }\<close>: one level of pointer is removed.\<close>

fun deref :: "gotype \<Rightarrow> gotype" where
  "deref (TPtr t) = t"
| "deref t = t"

section \<open>The string functions the code calls\<close>

text \<open>\<open>strings.Split(s, sep)\<close> for a one-byte separator: never empty, \<open>[""]\<close> on \<open>""\<close>.\<close>

fun Split :: "string \<Rightarrow> char \<Rightarrow> string list" where
  "Split [] sep = [[]]"
| "Split (c # cs) sep =
     (if c = sep then [] # Split cs sep
      else (case Split cs sep of [] \<Rightarrow> [[c]] | w # ws \<Rightarrow> (c # w) # ws))"

text \<open>\<open>strings.HasPrefix\<close>, \<open>strings.TrimPrefix\<close> and \<open>strings.Contains\<close>.\<close>

definition HasPrefix :: "string \<Rightarrow> string \<Rightarrow> bool" where
  "HasPrefix s p = prefix p s"

definition TrimPrefix :: "string \<Rightarrow> string \<Rightarrow> string" where
  "TrimPrefix s p = (if prefix p s then drop (length p) s else s)"

fun Contains :: "string \<Rightarrow> string \<Rightarrow> bool" where
  "Contains [] sub = (sub = [])"
| "Contains (c # cs) sub = (prefix sub (c # cs) \<or> Contains cs sub)"

text \<open>
  \<open>strconv.Atoi\<close>: an optional sign, then one or more decimal digits, nothing else; the
  value must fit the 64-bit \<open>int\<close>. \<open>None\<close> is the error return.
\<close>

definition digitVal :: "char \<Rightarrow> nat option" where
  "digitVal c = (let n = (of_char c :: nat) in if 48 \<le> n \<and> n \<le> 57 then Some (n - 48) else None)"

fun parseDigits :: "nat \<Rightarrow> string \<Rightarrow> nat option" where
  "parseDigits acc [] = Some acc"
| "parseDigits acc (c # cs) =
     (case digitVal c of None \<Rightarrow> None | Some d \<Rightarrow> parseDigits (acc * 10 + d) cs)"

definition Atoi :: "string \<Rightarrow> int option" where
  "Atoi s =
     (let (neg, ds) =
        (case s of
           [] \<Rightarrow> (False, s)
         | c # r \<Rightarrow> if c = CHR ''-'' then (True, r) else if c = CHR ''+'' then (False, r) else (False, s))
      in if ds = [] then None
         else (case parseDigits 0 ds of
                 None \<Rightarrow> None
               | Some n \<Rightarrow>
                   (let v = (if neg then - int n else int n)
                    in if - (2 ^ 63) \<le> v \<and> v < 2 ^ 63 then Some v else None)))"

section \<open>Schema nodes\<close>

text \<open>
  The fields of \<open>openapi3.Schema\<close> that \<open>generateSchema\<close> writes. \<open>MinLength\<close> is a
  \<open>uint64\<close> (0 when never set); \<open>MaxLength\<close>, \<open>Min\<close> and \<open>Max\<close> are pointers
  (\<open>None\<close> is nil). The float type is left open: \<open>strconv.ParseFloat\<close> is passed in as
  the function \<open>ParseFloat\<close>, \<open>None\<close> being its error return. \<open>Properties\<close> is a Go map,
  kept as an association list that \<open>AList.update\<close> writes as the map assignment does.
\<close>

record 'f schema_attrs =
  Type :: string
  Format :: string
  Required :: "string list"
  Example :: "string option"
  MinLength :: "64 word"
  MaxLength :: "64 word option"
  Min_bound :: "'f option"
  Max_bound :: "'f option"
  Enum_values :: "string list option"

datatype 'f Schema =
  Schema (attrs: "'f schema_attrs") (Items: "'f Schema option")
    (AdditionalProperties: "'f Schema option") (Properties: "(string \<times> 'f Schema) list")

definition emptyAttrs :: "'f schema_attrs" where
  "emptyAttrs = \<lparr>Type = [], Format = [], Required = [], Example = None, MinLength = 0,
     MaxLength = None, Min_bound = None, Max_bound = None, Enum_values = None\<rparr>"

text \<open>\<open>&openapi3.Schema{Type: ty}\<close>\<close>

definition typed :: "string \<Rightarrow> 'f Schema" where
  "typed ty = Schema (emptyAttrs\<lparr>Type := ty\<rparr>) None None []"

text \<open>An assignment to one of the scalar fields of a node.\<close>

definition upd :: "('f schema_attrs \<Rightarrow> 'f schema_attrs) \<Rightarrow> 'f Schema \<Rightarrow> 'f Schema" where
  "upd g s = Schema (g (attrs s)) (Items s) (AdditionalProperties s) (Properties s)"

section \<open>Schema derivation: the struct loop of \<open>generateSchema\<close>\<close>

text \<open>The serialized name and the omit-if-empty flag read from the \<open>json\<close> tag.\<close>

definition fieldName :: "field \<Rightarrow> string" where
  "fieldName f =
     (let jsonTag = Tag_Get (ftag f) ''json''
      in if jsonTag \<noteq> [] then hd (Split jsonTag CHR '','') else fname f)"

definition omitempty :: "field \<Rightarrow> bool" where
  "omitempty f =
     (let jsonTag = Tag_Get (ftag f) ''json''
      in jsonTag \<noteq> [] \<and> ''omitempty'' \<in> set (tl (Split jsonTag CHR '','')))"

text \<open>
  One round of \<open>for _, v := range validations\<close> is four \<open>if\<close> blocks in a row, each
  acting on the node the one before left: \<open>min=\<close>, \<open>max=\<close>, \<open>email\<close>, \<open>oneof=\<close>.
  \<open>uint64(minLen)\<close> is \<open>word_of_int\<close>: a negative length wraps around.
\<close>

definition minBound :: "(string \<Rightarrow> 'f option) \<Rightarrow> string \<Rightarrow> 'f Schema \<Rightarrow> 'f Schema" where
  "minBound ParseFloat v fieldSchema =
     (if HasPrefix v ''min='' then
        (let val = TrimPrefix v ''min='' in
         if val \<noteq> [] then
           (if Type (attrs fieldSchema) = ''string'' then
              (case Atoi val of
                 Some minLen \<Rightarrow> upd (\<lambda>a. a\<lparr>MinLength := word_of_int minLen\<rparr>) fieldSchema
               | None \<Rightarrow> fieldSchema)
            else if Type (attrs fieldSchema) = ''integer'' \<or> Type (attrs fieldSchema) = ''number'' then
              (case ParseFloat val of
                 Some m \<Rightarrow> upd (\<lambda>a. a\<lparr>Min_bound := Some m\<rparr>) fieldSchema
               | None \<Rightarrow> fieldSchema)
            else fieldSchema)
         else fieldSchema)
      else fieldSchema)"

definition maxBound :: "(string \<Rightarrow> 'f option) \<Rightarrow> string \<Rightarrow> 'f Schema \<Rightarrow> 'f Schema" where
  "maxBound ParseFloat v fieldSchema =
     (if HasPrefix v ''max='' then
        (let val = TrimPrefix v ''max='' in
         if val \<noteq> [] then
           (if Type (attrs fieldSchema) = ''string'' then
              (case Atoi val of
                 Some maxLen \<Rightarrow> upd (\<lambda>a. a\<lparr>MaxLength := Some (word_of_int maxLen)\<rparr>) fieldSchema
               | None \<Rightarrow> fieldSchema)
            else if Type (attrs fieldSchema) = ''integer'' \<or> Type (attrs fieldSchema) = ''number'' then
              (case ParseFloat val of
                 Some m \<Rightarrow> upd (\<lambda>a. a\<lparr>Max_bound := Some m\<rparr>) fieldSchema
               | None \<Rightarrow> fieldSchema)
            else fieldSchema)
         else fieldSchema)
      else fieldSchema)"

definition emailFormat :: "string \<Rightarrow> 'f Schema \<Rightarrow> 'f Schema" where
  "emailFormat v fieldSchema =
     (if v = ''email'' then upd (\<lambda>a. a\<lparr>Format := ''email''\<rparr>) fieldSchema else fieldSchema)"

definition oneofEnum :: "string \<Rightarrow> 'f Schema \<Rightarrow> 'f Schema" where
  "oneofEnum v fieldSchema =
     (if HasPrefix v ''oneof='' then
        upd (\<lambda>a. a\<lparr>Enum_values := Some (Split (TrimPrefix v ''oneof='') CHR '' '')\<rparr>) fieldSchema
      else fieldSchema)"

definition applyValidation :: "(string \<Rightarrow> 'f option) \<Rightarrow> 'f Schema \<Rightarrow> string \<Rightarrow> 'f Schema" where
  "applyValidation ParseFloat fieldSchema v =
     oneofEnum v (emailFormat v (maxBound ParseFloat v (minBound ParseFloat v fieldSchema)))"

text \<open>
  What the loop body does to the node \<open>generateSchema(field.Type)\<close> returned: the
  \<open>example\<close> tag, then every comma-separated part of the \<open>validate\<close> tag.
\<close>

definition annotate :: "(string \<Rightarrow> 'f option) \<Rightarrow> field \<Rightarrow> 'f Schema \<Rightarrow> 'f Schema" where
  "annotate ParseFloat f fieldSchema =
     (let exampleTag = Tag_Get (ftag f) ''example'';
          s1 = (if exampleTag \<noteq> [] then upd (\<lambda>a. a\<lparr>Example := Some exampleTag\<rparr>) fieldSchema
                else fieldSchema);
          validateTag = Tag_Get (ftag f) ''validate''
      in if validateTag \<noteq> [] then foldl (applyValidation ParseFloat) s1 (Split validateTag CHR '','')
         else s1)"

text \<open>The test that appends the field's name to \<open>schema.Required\<close>.\<close>

definition listedRequired :: "field \<Rightarrow> bool" where
  "listedRequired f =
     (let validateTag = Tag_Get (ftag f) ''validate''
      in validateTag \<noteq> [] \<and> Contains validateTag ''required'' \<and> \<not> omitempty f)"

text \<open>The loop body for a field that is not skipped, given the node derived for its type.\<close>

definition addField :: "(string \<Rightarrow> 'f option) \<Rightarrow> field \<Rightarrow> 'f Schema \<Rightarrow> 'f Schema \<Rightarrow> 'f Schema" where
  "addField ParseFloat f fieldSchema schema =
     (let s1 = (if listedRequired f
                then upd (\<lambda>a. a\<lparr>Required := Required a @ [fieldName f]\<rparr>) schema
                else schema)
      in Schema (attrs s1) (Items s1) (AdditionalProperties s1)
           (AList.update (fieldName f) (annotate ParseFloat f fieldSchema) (Properties s1)))"

section \<open>\<open>generateSchema\<close>\<close>

text \<open>
  \<open>generateSchema\<close> is a method of \<open>*App\<close>: the receiver is passed to every recursive
  call, so the model takes the application state and returns it with the node. The
  loop over the fields of a struct is \<open>deriveFields\<close>.
\<close>

lemma size_deref: "size (deref t) \<le> size t"
  by (cases t) auto

lemma size_ftype: "size (ftype f) < size f"
  by (cases f) simp

function generateSchema :: "(string \<Rightarrow> 'f option) \<Rightarrow> 'app \<Rightarrow> gotype \<Rightarrow> 'f Schema \<times> 'app"
  and deriveFields ::
    "(string \<Rightarrow> 'f option) \<Rightarrow> 'app \<Rightarrow> field list \<Rightarrow> 'f Schema \<Rightarrow> 'f Schema \<times> 'app"
where
  "generateSchema ParseFloat app t =
     (case deref t of
        TString \<Rightarrow> (typed ''string'', app)
      | TInt \<Rightarrow> (typed ''integer'', app)
      | TInt32 \<Rightarrow> (typed ''integer'', app)
      | TInt64 \<Rightarrow> (typed ''integer'', app)
      | TFloat32 \<Rightarrow> (typed ''number'', app)
      | TFloat64 \<Rightarrow> (typed ''number'', app)
      | TBool \<Rightarrow> (typed ''boolean'', app)
      | TSlice e \<Rightarrow>
          (case generateSchema ParseFloat app e of
             (items, app') \<Rightarrow> (Schema (emptyAttrs\<lparr>Type := ''array''\<rparr>) (Some items) None [], app'))
      | TMap k e \<Rightarrow>
          (case generateSchema ParseFloat app e of
             (elem, app') \<Rightarrow> (Schema (emptyAttrs\<lparr>Type := ''object''\<rparr>) None (Some elem) [], app'))
      | TStruct name flds \<Rightarrow>
          (if name = ''time.Time''
           then (Schema (emptyAttrs\<lparr>Type := ''string'', Format := ''date-time''\<rparr>) None None [], app)
           else deriveFields ParseFloat app flds (typed ''object''))
      | _ \<Rightarrow> (typed ''object'', app))"
| "deriveFields ParseFloat app [] schema = (schema, app)"
| "deriveFields ParseFloat app (f # rest) schema =
     (if Tag_Get (ftag f) ''json'' = ''-'' then deriveFields ParseFloat app rest schema
      else (case generateSchema ParseFloat app (ftype f) of
              (fieldSchema, app') \<Rightarrow>
                deriveFields ParseFloat app' rest (addField ParseFloat f fieldSchema schema)))"
  by pat_completeness auto

termination
proof (relation "measure (\<lambda>x. case x of Inl (_, _, t) \<Rightarrow> size t
                                     | Inr (_, _, fs, _) \<Rightarrow> size_list size fs)",
    goal_cases)
  case 1
  show ?case by simp
next
  case (2 ParseFloat app t e)
  then show ?case using size_deref [of t] by simp
next
  case (3 ParseFloat app t k e)
  then show ?case using size_deref [of t] by simp
next
  case (4 ParseFloat app t name flds)
  then show ?case using size_deref [of t] by simp
next
  case (5 ParseFloat app f rest schema)
  show ?case by simp
next
  case (6 ParseFloat app f rest schema)
  show ?case using size_ftype [of f] by simp
next
  case (7 ParseFloat app f rest schema fieldSchema app')
  show ?case by simp
qed

declare generateSchema.simps [simp del]

section \<open>What the claims about schemas speak of\<close>

text \<open>
  The spec's ConstraintSet marks a field required when \<open>required\<close> is one of the
  comma-separated tokens of its constraint expression (the \<open>validate\<close> tag).
\<close>

definition markedRequired :: "field \<Rightarrow> bool" where
  "markedRequired f = (''required'' \<in> set (Split (Tag_Get (ftag f) ''validate'') CHR '',''))"

text \<open>
  A node's bounds follow its type: the length bounds are unset unless the type is
  \<open>string\<close>, the numeric bounds unless it is \<open>integer\<close> or \<open>number\<close>. \<open>boundsGated\<close>
  asks it of a node and of every node below it.
\<close>

definition gatedAttrs :: "'f schema_attrs \<Rightarrow> bool" where
  "gatedAttrs a =
     ((Type a \<noteq> ''string'' \<longrightarrow> MinLength a = 0 \<and> MaxLength a = None) \<and>
      (Type a \<noteq> ''integer'' \<and> Type a \<noteq> ''number'' \<longrightarrow> Min_bound a = None \<and> Max_bound a = None))"

fun boundsGated :: "'f Schema \<Rightarrow> bool" where
  "boundsGated (Schema a items addl props) =
     (gatedAttrs a \<and>
      (case items of None \<Rightarrow> True | Some i \<Rightarrow> boundsGated i) \<and>
      (case addl of None \<Rightarrow> True | Some p \<Rightarrow> boundsGated p) \<and>
      list_all boundsGated (map snd props))"

text \<open>No bound at all on a node.\<close>

definition unbounded :: "'f schema_attrs \<Rightarrow> bool" where
  "unbounded a =
     (MinLength a = 0 \<and> MaxLength a = None \<and> Min_bound a = None \<and> Max_bound a = None)"

section \<open>The request adapter: \<open>createEchoHandler\<close>\<close>

text \<open>
  An error a handler returns is an \<open>*echo.HTTPError\<close>, with its \<open>Code\<close> and its
  \<open>Message\<close> as \<open>%v\<close> prints it, or any other error, with the text of \<open>Error()\<close>.
  A result of \<open>handlerValue.Call\<close> is an ordinary value, a non-nil error, or the nil
  error interface.
\<close>

datatype herror = HTTPError int string | PlainError string

datatype 'a gvalue = Value 'a | ErrorValue herror | NilError

text \<open>
  \<open>reflect.Value.IsZero\<close>: on ordinary values it is the parameter \<open>isZero\<close> (the zero
  value of the result type); a non-nil interface is not zero, the nil interface is.
\<close>

fun IsZero :: "('a \<Rightarrow> bool) \<Rightarrow> 'a gvalue \<Rightarrow> bool" where
  "IsZero isZero (Value a) = isZero a"
| "IsZero isZero (ErrorValue e) = False"
| "IsZero isZero NilError = True"

text \<open>\<open>err, ok := v.Interface().(error); ok && err != nil\<close>\<close>

fun asError :: "'a gvalue \<Rightarrow> herror option" where
  "asError (ErrorValue e) = Some e"
| "asError v = None"

text \<open>
  \<open>Response[any]\<close>, the envelope; \<open>Data\<close> is \<open>None\<close> when the field is left nil. A reply
  is \<open>c.JSON(status, envelope)\<close> or \<open>c.NoContent(status)\<close>.
\<close>

record 'a Response =
  Data :: "'a gvalue option"
  Error :: string
  Success :: bool

datatype 'a reply = JSON int "'a Response" | NoContent int

text \<open>
  \<open>Route\<close>, with the fields registration and the adapter read (the security, header,
  content-type and example fields only reach the document assembler).
\<close>

record Route =
  Summary :: string
  Description :: string
  Tags :: "string list"
  SuccessStatus :: int

text \<open>
  What the adapter asks of the request context: \<open>c.Request().Method\<close> and Echo's three
  binding functions. Each takes the instance and returns it populated, or the text of its
  error. They are Echo's code, not the repository's, so they are parameters here.
\<close>

record 'req Context =
  RequestMethod :: string
  BindQueryParams :: "'req \<Rightarrow> string + 'req"
  Bind :: "'req \<Rightarrow> string + 'req"
  BindPathParams :: "'req \<Rightarrow> string + 'req"

text \<open>
  The calls the adapter makes to its collaborators, recorded in the order made: the
  binding functions, the validator with the instance it is given, the handler with its argument.
\<close>

datatype 'req event =
    CallBindQueryParams | CallBind | CallBindPathParams | CallValidate 'req
  | CallHandler "'req option"

text \<open>
  The reply every early return of the adapter sends:
  \<open>c.JSON(http.StatusBadRequest, Response[any]{Error: msg, Success: false})\<close>.
\<close>

definition badRequest :: "string \<Rightarrow> 'a reply" where
  "badRequest msg = JSON 400 \<lparr>Data = None, Error = msg, Success = False\<rparr>"

text \<open>
  Binding, on the zero instance \<open>reflect.New(requestType)\<close> made: query parameters for GET
  and DELETE, \<open>c.Bind\<close> otherwise, then the path parameters. \<open>Inl\<close> carries the message
  of the 400 reply the adapter returns with; the list records the calls made, in order.
\<close>

definition bindInput :: "'req Context \<Rightarrow> 'req \<Rightarrow> (string + 'req) \<times> 'req event list" where
  "bindInput c req =
     (if RequestMethod c = ''GET'' \<or> RequestMethod c = ''DELETE'' then
        (case BindQueryParams c req of
           Inl err \<Rightarrow> (Inl (''Invalid query parameters: '' @ err), [CallBindQueryParams])
         | Inr req1 \<Rightarrow>
             (case BindPathParams c req1 of
                Inl err \<Rightarrow> (Inl (''Invalid path parameters: '' @ err),
                            [CallBindQueryParams, CallBindPathParams])
              | Inr req2 \<Rightarrow> (Inr req2, [CallBindQueryParams, CallBindPathParams])))
      else
        (case Bind c req of
           Inl err \<Rightarrow> (Inl (''Invalid request body: '' @ err), [CallBind])
         | Inr req1 \<Rightarrow>
             (case BindPathParams c req1 of
                Inl err \<Rightarrow> (Inl (''Invalid path parameters: '' @ err),
                            [CallBind, CallBindPathParams])
              | Inr req2 \<Rightarrow> (Inr req2, [CallBind, CallBindPathParams]))))"

text \<open>
  The block \<open>if requestType != nil { ... }\<close>: binding, then \<open>app.validator.Struct\<close>
  (\<open>Some err\<close> is a validation error). \<open>Inr\<close> carries the handler's second argument,
  if it takes one.
\<close>

definition bindAndValidate ::
  "('req \<Rightarrow> string option) \<Rightarrow> 'req option \<Rightarrow> 'req Context
     \<Rightarrow> (string + 'req option) \<times> 'req event list" where
  "bindAndValidate validator requestType c =
     (case requestType of
        None \<Rightarrow> (Inr None, [])
      | Some zero \<Rightarrow>
          (case bindInput c zero of
             (Inl msg, trace) \<Rightarrow> (Inl msg, trace)
           | (Inr req, trace) \<Rightarrow>
               (case validator req of
                  Some err \<Rightarrow> (Inl (''Validation failed: '' @ err), trace @ [CallValidate req])
                | None \<Rightarrow> (Inr (Some req), trace @ [CallValidate req]))))"

text \<open>
  The response block of the adapter, on the results of the call. The error test reads
  the last result, and only when there are two or more.
\<close>

definition respond :: "('a \<Rightarrow> bool) \<Rightarrow> Route option \<Rightarrow> 'a gvalue list \<Rightarrow> 'a reply" where
  "respond isZero routeConfig results =
     (if length results > 0 then
        (case (if length results > 1 then asError (last results) else None) of
           Some (HTTPError code message) \<Rightarrow>
             JSON code \<lparr>Data = None, Error = message, Success = False\<rparr>
         | Some (PlainError text) \<Rightarrow>
             JSON 500 \<lparr>Data = None, Error = text, Success = False\<rparr>
         | None \<Rightarrow>
             (if \<not> IsZero isZero (hd results) then
                JSON (case routeConfig of
                        None \<Rightarrow> 200
                      | Some r \<Rightarrow> if SuccessStatus r > 0 then SuccessStatus r else 200)
                  \<lparr>Data = Some (hd results), Error = [], Success = True\<rparr>
              else NoContent 204))
      else NoContent 204)"

text \<open>
  The function \<open>createEchoHandler\<close> returns, applied to a request context: the reply it
  sends and the calls it made. \<open>handler\<close> is \<open>handlerValue.Call\<close>, from the arguments
  after the context to the list of results; the \<open>responseType\<close> parameter of the source
  is never read and is left out.
\<close>

definition createEchoHandler ::
  "('req \<Rightarrow> string option) \<Rightarrow> ('a \<Rightarrow> bool) \<Rightarrow> ('req option \<Rightarrow> 'a gvalue list)
     \<Rightarrow> 'req option \<Rightarrow> Route option \<Rightarrow> 'req Context \<Rightarrow> 'a reply \<times> 'req event list" where
  "createEchoHandler validator isZero handler requestType routeConfig c =
     (case bindAndValidate validator requestType c of
        (Inl msg, trace) \<Rightarrow> (badRequest msg, trace)
      | (Inr args, trace) \<Rightarrow>
          (respond isZero routeConfig (handler args), trace @ [CallHandler args]))"

text \<open>
  A list of results reports a failure when its last element is a non-nil error,
  however many results there are.
\<close>

definition reportsFailure :: "'a gvalue list \<Rightarrow> bool" where
  "reportsFailure results = (results \<noteq> [] \<and> asError (last results) \<noteq> None)"

section \<open>Registration: \<open>registerRoute\<close>\<close>

text \<open>
  \<open>RouteInfo\<close> keeps the handler by its type. The application is its list of routes
  and the (method, path) pairs handed to the Echo router. A panic is not recovered by
  \<open>registerRoute\<close>: it is the \<open>Inl\<close> result.
\<close>

record RouteInfo =
  Method :: string
  Path :: string
  Handler :: gotype
  RouteSummary :: string
  RouteDescription :: string
  RouteTags :: "string list"
  RequestType :: "gotype option"
  ResponseType :: "gotype option"
  RouteConfig :: "Route option"

record App =
  routes :: "RouteInfo list"
  echoRoutes :: "(string \<times> string) list"

text \<open>\<open>New()\<close>: no route yet.\<close>

definition New :: App where
  "New = \<lparr>routes = [], echoRoutes = []\<rparr>"

text \<open>
  \<open>registerRoute\<close>, on the handler's type as \<open>reflect.TypeOf\<close> gives it: \<open>None\<close> for a
  nil handler, where \<open>handlerType.Kind()\<close> dereferences nil. A handler that is not a
  function meets \<open>panic("handler must be a function")\<close>. \<open>opts\<close> is the variadic
  parameter; only its first element is read.
\<close>

datatype panic = HandlerMustBeAFunction | NilPointerDereference

definition registerRoute ::
  "App \<Rightarrow> string \<Rightarrow> string \<Rightarrow> gotype option \<Rightarrow> Route list \<Rightarrow> panic + App" where
  "registerRoute app method path handler opts =
     (case handler of
        None \<Rightarrow> Inl NilPointerDereference
      | Some handlerType \<Rightarrow>
          (case handlerType of
             TFunc ins outs \<Rightarrow>
               (let requestType = (if length ins > 1 then Some (ins ! 1) else None);
                    responseType = (if length outs > 0 then Some (outs ! 0) else None);
                    routeInfo =
                      \<lparr>Method = method, Path = path, Handler = handlerType,
                       RouteSummary = (case opts of [] \<Rightarrow> [] | route # _ \<Rightarrow> Summary route),
                       RouteDescription = (case opts of [] \<Rightarrow> [] | route # _ \<Rightarrow> Description route),
                       RouteTags = (case opts of [] \<Rightarrow> [] | route # _ \<Rightarrow> Tags route),
                       RequestType = requestType, ResponseType = responseType,
                       RouteConfig = (case opts of [] \<Rightarrow> None | route # _ \<Rightarrow> Some route)\<rparr>
                in Inr (app\<lparr>routes := routes app @ [routeInfo],
                             echoRoutes :=
                               (if method \<in> {''GET'', ''POST'', ''PUT'', ''PATCH'', ''DELETE''}
                                then echoRoutes app @ [(method, path)]
                                else echoRoutes app)\<rparr>))
           | _ \<Rightarrow> Inl HandlerMustBeAFunction))"

text \<open>
  The spec's words for an acceptable handler: a callable whose first parameter is
  context-like, that is, of type \<open>echo.Context\<close>.
\<close>

definition contextLike :: "gotype \<Rightarrow> bool" where
  "contextLike t = (t = TInterface ''echo.Context'')"

definition callableWithContext :: "gotype option \<Rightarrow> bool" where
  "callableWithContext handler =
     (case handler of Some (TFunc (a # _) _) \<Rightarrow> contextLike a | _ \<Rightarrow> False)"

section \<open>Facts about the derivation\<close>

lemma generateSchema_snd:
  fixes pf :: "string \<Rightarrow> 'f option" and app :: 'app
  shows "snd (generateSchema pf app t) = app"
  and "snd (deriveFields pf app fs s) = app"
proof (induction pf app t and pf app fs s rule: generateSchema_deriveFields.induct)
  case (1 ParseFloat app t)
  show ?case
  proof (cases "deref t")
    case (TSlice e)
    with 1(1) [of e] show ?thesis
      by (simp add: split_beta generateSchema.simps [of _ _ t])
  next
    case (TMap k e)
    with 1(2) [of k e] show ?thesis
      by (simp add: split_beta generateSchema.simps [of _ _ t])
  next
    case (TStruct name flds)
    with 1(3) [of name flds] show ?thesis
      by (simp add: generateSchema.simps [of _ _ t])
  qed (simp_all add: generateSchema.simps [of _ _ t])
next
  case (2 ParseFloat app schema)
  then show ?case by simp
next
  case (3 ParseFloat app f rest schema)
  show ?case
  proof (cases "Tag_Get (ftag f) ''json'' = ''-''")
    case True
    with 3(1) show ?thesis by simp
  next
    case False
    obtain x y where xy: "generateSchema ParseFloat app (ftype f) = (x, y)"
      by (cases "generateSchema ParseFloat app (ftype f)")
    from 3(2) [OF False] xy have y: "y = app" by simp
    from 3(3) [OF False xy [symmetric]] False xy y show ?thesis
      by simp
  qed
qed

text \<open>The loop, one field at a time, with the state already known to come back unchanged.\<close>

lemma deriveFields_Cons:
  "fst (deriveFields pf app (f # rest) s) =
     (if Tag_Get (ftag f) ''json'' = ''-'' then fst (deriveFields pf app rest s)
      else fst (deriveFields pf app rest (addField pf f (fst (generateSchema pf app (ftype f))) s)))"
proof -
  obtain x y where xy: "generateSchema pf app (ftype f) = (x, y)"
    by (cases "generateSchema pf app (ftype f)")
  with generateSchema_snd(1) [of pf app "ftype f"] have "y = app" by simp
  with xy show ?thesis by simp
qed

lemma attrs_upd [simp]: "attrs (upd g s) = g (attrs s)"
  and Items_upd [simp]: "Items (upd g s) = Items s"
  and AdditionalProperties_upd [simp]: "AdditionalProperties (upd g s) = AdditionalProperties s"
  and Properties_upd [simp]: "Properties (upd g s) = Properties s"
  by (simp_all add: upd_def)

lemma Required_addField:
  "Required (attrs (addField pf f x s)) =
     Required (attrs s) @ (if listedRequired f then [fieldName f] else [])"
  by (simp add: addField_def Let_def)

lemma Properties_addField:
  "map_of (Properties (addField pf f x s)) = (map_of (Properties s))(fieldName f \<mapsto> annotate pf f x)"
  by (simp add: addField_def Let_def update_conv')

lemma Required_deriveFields:
  "Required (attrs (fst (deriveFields pf app fs s))) =
     Required (attrs s) @
       map fieldName (filter (\<lambda>f. Tag_Get (ftag f) ''json'' \<noteq> ''-'' \<and> listedRequired f) fs)"
proof (induction fs arbitrary: s)
  case Nil
  show ?case by simp
next
  case (Cons f rest)
  show ?case
    unfolding deriveFields_Cons
    by (simp add: Cons.IH Required_addField)
qed

lemma Properties_deriveFields_other:
  "k \<notin> fieldName ` {f \<in> set fs. Tag_Get (ftag f) ''json'' \<noteq> ''-''} \<Longrightarrow>
     map_of (Properties (fst (deriveFields pf app fs s))) k = map_of (Properties s) k"
proof (induction fs arbitrary: s)
  case Nil
  show ?case by simp
next
  case (Cons f rest)
  from Cons.prems have rest: "k \<notin> fieldName ` {g \<in> set rest. Tag_Get (ftag g) ''json'' \<noteq> ''-''}"
    by auto
  show ?case
  proof (cases "Tag_Get (ftag f) ''json'' = ''-''")
    case True
    with Cons.IH [OF rest] show ?thesis unfolding deriveFields_Cons by simp
  next
    case False
    with Cons.prems have "k \<noteq> fieldName f" by auto
    with False Cons.IH [OF rest] show ?thesis
      unfolding deriveFields_Cons by (simp add: Properties_addField)
  qed
qed

lemma Properties_deriveFields:
  assumes "f \<in> set fs" and "Tag_Get (ftag f) ''json'' \<noteq> ''-''"
    and "distinct (map fieldName (filter (\<lambda>g. Tag_Get (ftag g) ''json'' \<noteq> ''-'') fs))"
  shows "map_of (Properties (fst (deriveFields pf app fs s))) (fieldName f) =
           Some (annotate pf f (fst (generateSchema pf app (ftype f))))"
  using assms
proof (induction fs arbitrary: s)
  case Nil
  then show ?case by simp
next
  case (Cons g rest)
  show ?case
  proof (cases "f \<in> set rest")
    case True
    from Cons.prems(3) have "distinct (map fieldName (filter (\<lambda>g. Tag_Get (ftag g) ''json'' \<noteq> ''-'') rest))"
      by (simp split: if_splits)
    from Cons.IH [OF True Cons.prems(2) this] show ?thesis
      unfolding deriveFields_Cons by simp
  next
    case False
    with Cons.prems(1) have fg: "g = f" by simp
    from Cons.prems(2,3) fg
    have "fieldName f \<notin> fieldName ` {h \<in> set rest. Tag_Get (ftag h) ''json'' \<noteq> ''-''}"
      by auto
    from Properties_deriveFields_other [OF this]
    have "map_of (Properties (fst (deriveFields pf app rest
              (addField pf f (fst (generateSchema pf app (ftype f))) s)))) (fieldName f) =
          map_of (Properties (addField pf f (fst (generateSchema pf app (ftype f))) s)) (fieldName f)" .
    with fg Cons.prems(2) show ?thesis
      unfolding deriveFields_Cons by (simp add: Properties_addField)
  qed
qed

lemma Contains_iff: "Contains s sub \<longleftrightarrow> (\<exists>pre suf. s = pre @ sub @ suf)"
proof (induction s)
  case Nil
  then show ?case by auto
next
  case (Cons c cs)
  show ?case
  proof
    assume "Contains (c # cs) sub"
    then consider "prefix sub (c # cs)" | "Contains cs sub" by auto
    then show "\<exists>pre suf. c # cs = pre @ sub @ suf"
    proof cases
      case 1
      then obtain suf where "c # cs = sub @ suf" by (auto simp: prefix_def)
      then have "c # cs = [] @ sub @ suf" by simp
      then show ?thesis by blast
    next
      case 2
      with Cons.IH obtain pre suf where "cs = pre @ sub @ suf" by blast
      then have "c # cs = (c # pre) @ sub @ suf" by simp
      then show ?thesis by blast
    qed
  next
    assume "\<exists>pre suf. c # cs = pre @ sub @ suf"
    then obtain pre suf where e: "c # cs = pre @ sub @ suf" by blast
    show "Contains (c # cs) sub"
    proof (cases pre)
      case Nil
      with e have "prefix sub (c # cs)" by (simp add: prefix_def)
      then show ?thesis by simp
    next
      case (Cons p pre')
      with e have "cs = pre' @ sub @ suf" by simp
      with Cons.IH have "Contains cs sub" by blast
      then show ?thesis by simp
    qed
  qed
qed

lemma Split_nonempty [simp]: "Split s c \<noteq> []"
  by (induction s) (auto split: list.splits)

lemma Split_hd_prefix: "prefix (hd (Split s c)) s"
  by (induction s) (auto split: list.splits)

lemma Split_part: "w \<in> set (Split s c) \<Longrightarrow> \<exists>pre suf. s = pre @ w @ suf"
proof (induction s arbitrary: w)
  case Nil
  then show ?case by simp
next
  case (Cons x xs)
  show ?case
  proof (cases "x = c")
    case True
    with Cons.prems have "w = [] \<or> w \<in> set (Split xs c)" by simp
    then show ?thesis
    proof
      assume "w = []"
      then have "x # xs = [] @ w @ (x # xs)" by simp
      then show ?thesis by blast
    next
      assume "w \<in> set (Split xs c)"
      from Cons.IH [OF this] obtain pre suf where "xs = pre @ w @ suf" by blast
      then have "x # xs = (x # pre) @ w @ suf" by simp
      then show ?thesis by blast
    qed
  next
    case False
    obtain w0 ws where sp: "Split xs c = w0 # ws"
      using Split_nonempty [of xs c] by (cases "Split xs c") auto
    with False Cons.prems have "w = x # w0 \<or> w \<in> set ws" by simp
    then show ?thesis
    proof
      assume w: "w = x # w0"
      from Split_hd_prefix [of xs c] sp obtain suf where "xs = w0 @ suf"
        by (auto simp: prefix_def)
      with w have "x # xs = [] @ w @ suf" by simp
      then show ?thesis by blast
    next
      assume "w \<in> set ws"
      with sp have "w \<in> set (Split xs c)" by simp
      from Cons.IH [OF this] obtain pre suf where "xs = pre @ w @ suf" by blast
      then have "x # xs = (x # pre) @ w @ suf" by simp
      then show ?thesis by blast
    qed
  qed
qed

lemma token_Contains: "w \<in> set (Split s c) \<Longrightarrow> Contains s w"
  using Split_part [of w s c] by (simp add: Contains_iff)

lemma Required_struct:
  assumes "name \<noteq> ''time.Time''"
  shows "Required (attrs (fst (generateSchema pf app (TStruct name flds)))) =
     map fieldName (filter (\<lambda>f. Tag_Get (ftag f) ''json'' \<noteq> ''-'' \<and> listedRequired f) flds)"
  using assms
  by (simp add: generateSchema.simps [of _ _ "TStruct name flds"] Required_deriveFields
      typed_def emptyAttrs_def)

section \<open>The required list\<close>

text \<open>
  Claim C4, as the code has it. For a struct other than \<open>time.Time\<close> whose kept fields
  (those whose \<open>json\<close> tag is not \<open>-\<close>) have distinct serialized names, a kept field
  whose \<open>validate\<close> tag mentions \<open>required\<close> only as a whole comma-separated token is
  named in the schema's required list exactly when that token is present and the field
  is not marked \<open>omitempty\<close>.
\<close>

theorem required_list_iff:
  assumes struct: "name \<noteq> ''time.Time''"
    and f: "f \<in> set flds" and kept: "Tag_Get (ftag f) ''json'' \<noteq> ''-''"
    and uniq: "distinct (map fieldName (filter (\<lambda>g. Tag_Get (ftag g) ''json'' \<noteq> ''-'') flds))"
    and whole: "Contains (Tag_Get (ftag f) ''validate'') ''required'' \<longrightarrow> markedRequired f"
  shows "fieldName f \<in> set (Required (attrs (fst (generateSchema ParseFloat app (TStruct name flds)))))
           \<longleftrightarrow> markedRequired f \<and> \<not> omitempty f"
proof -
  let ?kept = "filter (\<lambda>g. Tag_Get (ftag g) ''json'' \<noteq> ''-'') flds"
  let ?req = "filter (\<lambda>g. Tag_Get (ftag g) ''json'' \<noteq> ''-'' \<and> listedRequired g) flds"
  from uniq have inj: "inj_on fieldName (set ?kept)"
    by (simp add: distinct_map)
  from f kept have fk: "f \<in> set ?kept" by simp
  have listed: "fieldName f \<in> set (map fieldName ?req) \<longleftrightarrow> listedRequired f"
  proof
    assume "fieldName f \<in> set (map fieldName ?req)"
    then obtain g where g: "g \<in> set ?req" and eq: "fieldName g = fieldName f"
      by (auto simp only: set_map image_iff)
    from g have gk: "g \<in> set ?kept" and gl: "listedRequired g" by simp_all
    from inj_onD [OF inj eq gk fk] gl show "listedRequired f" by simp
  next
    assume "listedRequired f"
    with f kept have "f \<in> set ?req" by simp
    then show "fieldName f \<in> set (map fieldName ?req)" by (simp only: set_map image_eqI)
  qed
  have nonempty: "Tag_Get (ftag f) ''validate'' \<noteq> []" if m: "markedRequired f"
  proof
    assume "Tag_Get (ftag f) ''validate'' = []"
    with m show False by (simp add: markedRequired_def)
  qed
  have sub: "Contains (Tag_Get (ftag f) ''validate'') ''required''" if "markedRequired f"
    using that unfolding markedRequired_def by (rule token_Contains)
  have "listedRequired f \<longleftrightarrow> markedRequired f \<and> \<not> omitempty f"
    unfolding listedRequired_def Let_def using whole nonempty sub by blast
  with listed show ?thesis
    by (simp only: Required_struct [OF struct])
qed

text \<open>The required-list theorem at the \<open>Name\<close> field of the test suite's \<open>CreateUserRequest\<close>.\<close>

theorem required_list_iff_witness:
  "markedRequired (Field ''Name'' [(''json'', ''name''), (''validate'', ''required,min=2'')] TString)
   \<and> \<not> omitempty (Field ''Name'' [(''json'', ''name''), (''validate'', ''required,min=2'')] TString)
   \<and> fieldName (Field ''Name'' [(''json'', ''name''), (''validate'', ''required,min=2'')] TString)
     \<in> set (Required (attrs (fst (generateSchema (Map.empty :: string \<Rightarrow> int option) ()
         (TStruct ''CreateUserRequest''
            [Field ''Name'' [(''json'', ''name''), (''validate'', ''required,min=2'')] TString,
             Field ''Email'' [(''json'', ''email''), (''validate'', ''required,email'')] TString])))))"
proof -
  let ?n = "Field ''Name'' [(''json'', ''name''), (''validate'', ''required,min=2'')] TString"
  let ?e = "Field ''Email'' [(''json'', ''email''), (''validate'', ''required,email'')] TString"
  have h1: "''CreateUserRequest'' \<noteq> ''time.Time''" by simp
  have h2: "?n \<in> set [?n, ?e]" by simp
  have h3: "Tag_Get (ftag ?n) ''json'' \<noteq> ''-''" by (simp add: Tag_Get_def)
  have h4: "distinct (map fieldName (filter (\<lambda>g. Tag_Get (ftag g) ''json'' \<noteq> ''-'') [?n, ?e]))"
    by (simp add: Tag_Get_def fieldName_def)
  have m: "markedRequired ?n" by (simp add: markedRequired_def Tag_Get_def)
  then have h5: "Contains (Tag_Get (ftag ?n) ''validate'') ''required'' \<longrightarrow> markedRequired ?n"
    by simp
  have o: "\<not> omitempty ?n" by (simp add: omitempty_def Tag_Get_def)
  from required_list_iff [OF h1 h2 h3 h4 h5, of "Map.empty :: string \<Rightarrow> int option" "()"] m o
  show ?thesis by simp
qed

text \<open>
  A field with \<open>json:"-"\<close> and \<open>validate:"required"\<close> is marked required and is not
  omit-if-empty, yet the required list of its struct stays empty: the loop skips it.
\<close>

theorem required_list_counterexample:
  "markedRequired (Field ''Secret'' [(''json'', ''-''), (''validate'', ''required'')] TString)
   \<and> \<not> omitempty (Field ''Secret'' [(''json'', ''-''), (''validate'', ''required'')] TString)
   \<and> Required (attrs (fst (generateSchema (Map.empty :: string \<Rightarrow> int option) ()
        (TStruct ''Credentials''
           [Field ''Secret'' [(''json'', ''-''), (''validate'', ''required'')] TString])))) = []"
  by (simp add: markedRequired_def omitempty_def Tag_Get_def generateSchema.simps
      typed_def emptyAttrs_def)

section \<open>What one validation token can change\<close>

lemma minBound_cases:
  "minBound pf v s = s
   \<or> (\<exists>n. HasPrefix v ''min='' \<and> Type (attrs s) = ''string'' \<and> Atoi (TrimPrefix v ''min='') = Some n
          \<and> minBound pf v s = upd (\<lambda>a. a\<lparr>MinLength := word_of_int n\<rparr>) s)
   \<or> (\<exists>m. HasPrefix v ''min='' \<and> Type (attrs s) \<noteq> ''string''
          \<and> (Type (attrs s) = ''integer'' \<or> Type (attrs s) = ''number'')
          \<and> pf (TrimPrefix v ''min='') = Some m
          \<and> minBound pf v s = upd (\<lambda>a. a\<lparr>Min_bound := Some m\<rparr>) s)"
  by (simp add: minBound_def Let_def split: option.splits)

lemma maxBound_cases:
  "maxBound pf v s = s
   \<or> (\<exists>n. HasPrefix v ''max='' \<and> Type (attrs s) = ''string'' \<and> Atoi (TrimPrefix v ''max='') = Some n
          \<and> maxBound pf v s = upd (\<lambda>a. a\<lparr>MaxLength := Some (word_of_int n)\<rparr>) s)
   \<or> (\<exists>m. HasPrefix v ''max='' \<and> Type (attrs s) \<noteq> ''string''
          \<and> (Type (attrs s) = ''integer'' \<or> Type (attrs s) = ''number'')
          \<and> pf (TrimPrefix v ''max='') = Some m
          \<and> maxBound pf v s = upd (\<lambda>a. a\<lparr>Max_bound := Some m\<rparr>) s)"
  by (simp add: maxBound_def Let_def split: option.splits)

lemma emailFormat_cases:
  "emailFormat v s = s \<or> emailFormat v s = upd (\<lambda>a. a\<lparr>Format := ''email''\<rparr>) s"
  by (simp add: emailFormat_def)

lemma oneofEnum_cases:
  "oneofEnum v s = s \<or> (\<exists>e. oneofEnum v s = upd (\<lambda>a. a\<lparr>Enum_values := e\<rparr>) s)"
  by (auto simp: oneofEnum_def)

lemma boundsGated_sel:
  "boundsGated s \<longleftrightarrow>
     gatedAttrs (attrs s)
     \<and> (case Items s of None \<Rightarrow> True | Some i \<Rightarrow> boundsGated i)
     \<and> (case AdditionalProperties s of None \<Rightarrow> True | Some p \<Rightarrow> boundsGated p)
     \<and> list_all boundsGated (map snd (Properties s))"
  by (cases s) simp

lemma minBound_gated: "boundsGated s \<Longrightarrow> boundsGated (minBound pf v s)"
  using minBound_cases [of pf v s]
  by (auto simp: boundsGated_sel [of "upd _ _"] boundsGated_sel [of s] gatedAttrs_def)

lemma minBound_Type: "Type (attrs (minBound pf v s)) = Type (attrs s)"
  using minBound_cases [of pf v s] by auto

lemma maxBound_gated: "boundsGated s \<Longrightarrow> boundsGated (maxBound pf v s)"
  using maxBound_cases [of pf v s]
  by (auto simp: boundsGated_sel [of "upd _ _"] boundsGated_sel [of s] gatedAttrs_def)

lemma maxBound_Type: "Type (attrs (maxBound pf v s)) = Type (attrs s)"
  using maxBound_cases [of pf v s] by auto

lemma emailFormat_gated: "boundsGated s \<Longrightarrow> boundsGated (emailFormat v s)"
  using emailFormat_cases [of v s]
  by (auto simp: boundsGated_sel [of "upd _ _"] boundsGated_sel [of s] gatedAttrs_def)

lemma emailFormat_Type: "Type (attrs (emailFormat v s)) = Type (attrs s)"
  using emailFormat_cases [of v s] by auto

lemma oneofEnum_gated: "boundsGated s \<Longrightarrow> boundsGated (oneofEnum v s)"
  using oneofEnum_cases [of v s]
  by (auto simp: boundsGated_sel [of "upd _ _"] boundsGated_sel [of s] gatedAttrs_def)

lemma oneofEnum_Type: "Type (attrs (oneofEnum v s)) = Type (attrs s)"
  using oneofEnum_cases [of v s] by auto

lemma applyValidation_gated: "boundsGated s \<Longrightarrow> boundsGated (applyValidation pf s v)"
  by (simp add: applyValidation_def minBound_gated maxBound_gated emailFormat_gated oneofEnum_gated)

lemma applyValidation_Type: "Type (attrs (applyValidation pf s v)) = Type (attrs s)"
  by (simp add: applyValidation_def minBound_Type maxBound_Type emailFormat_Type oneofEnum_Type)

lemma foldl_applyValidation_gated:
  "boundsGated s \<Longrightarrow> boundsGated (foldl (applyValidation pf) s vs)"
  by (induction vs arbitrary: s) (simp_all add: applyValidation_gated)

lemma foldl_applyValidation_Type:
  "Type (attrs (foldl (applyValidation pf) s vs)) = Type (attrs s)"
  by (induction vs arbitrary: s) (simp_all add: applyValidation_Type)

lemma annotate_gated: "boundsGated s \<Longrightarrow> boundsGated (annotate pf f s)"
proof -
  assume g: "boundsGated s"
  have "boundsGated (upd (\<lambda>a. a\<lparr>Example := e\<rparr>) s)" for e
    using g by (simp add: boundsGated_sel [of "upd _ _"] boundsGated_sel [of s] gatedAttrs_def)
  with g show ?thesis
    by (simp add: annotate_def Let_def foldl_applyValidation_gated)
qed

lemma annotate_Type: "Type (attrs (annotate pf f s)) = Type (attrs s)"
  by (simp add: annotate_def Let_def foldl_applyValidation_Type)

lemma list_all_update:
  "list_all P (map snd al) \<Longrightarrow> P v \<Longrightarrow> list_all P (map snd (AList.update k v al))"
  by (induction al) auto

lemma addField_gated:
  "boundsGated s \<Longrightarrow> boundsGated x \<Longrightarrow> boundsGated (addField pf f x s)"
  by (simp add: addField_def Let_def boundsGated_sel [of s] gatedAttrs_def
      list_all_update annotate_gated)

lemma typed_gated: "boundsGated (typed ty)"
  by (simp add: typed_def emptyAttrs_def gatedAttrs_def)

lemma generateSchema_gated:
  fixes pf :: "string \<Rightarrow> 'f option" and app :: 'app
  shows "boundsGated (fst (generateSchema pf app t))"
  and "boundsGated s \<Longrightarrow> boundsGated (fst (deriveFields pf app fs s))"
proof (induction pf app t and pf app fs s rule: generateSchema_deriveFields.induct)
  case (1 ParseFloat app t)
  show ?case
  proof (cases "deref t")
    case (TSlice e)
    with 1(1) [of e] show ?thesis
      by (simp add: split_beta generateSchema.simps [of _ _ t] emptyAttrs_def gatedAttrs_def)
  next
    case (TMap k e)
    with 1(2) [of k e] show ?thesis
      by (simp add: split_beta generateSchema.simps [of _ _ t] emptyAttrs_def gatedAttrs_def)
  next
    case (TStruct name flds)
    with 1(3) [of name flds] show ?thesis
      by (simp add: generateSchema.simps [of _ _ t] typed_gated emptyAttrs_def gatedAttrs_def)
  qed (simp_all add: generateSchema.simps [of _ _ t] typed_gated)
next
  case (2 ParseFloat app schema)
  then show ?case by simp
next
  case (3 ParseFloat app f rest schema)
  show ?case
  proof (cases "Tag_Get (ftag f) ''json'' = ''-''")
    case True
    with 3(1) 3(4) show ?thesis by simp
  next
    case False
    have "boundsGated (addField ParseFloat f (fst (generateSchema ParseFloat app (ftype f))) schema)"
      using 3(2) [OF False] 3(4) by (rule addField_gated [rotated])
    then have "boundsGated (fst (deriveFields ParseFloat app rest
               (addField ParseFloat f (fst (generateSchema ParseFloat app (ftype f))) schema)))"
      using 3(3) [OF False, of "fst (generateSchema ParseFloat app (ftype f))" app]
        generateSchema_snd(1) [of ParseFloat app "ftype f"]
      by (simp add: prod_eq_iff)
    with False show ?thesis
      by (simp only: deriveFields_Cons if_False)
  qed
qed

lemma TrimPrefix_min: "HasPrefix v ''min='' \<Longrightarrow> TrimPrefix v ''min='' = drop 4 v"
  by (simp add: HasPrefix_def TrimPrefix_def eval_nat_numeral)

lemma TrimPrefix_max: "HasPrefix v ''max='' \<Longrightarrow> TrimPrefix v ''max='' = drop 4 v"
  by (simp add: HasPrefix_def TrimPrefix_def eval_nat_numeral)

lemma min_not_others:
  assumes "HasPrefix v ''min=''"
  shows "\<not> HasPrefix v ''max=''" and "v \<noteq> ''email''" and "\<not> HasPrefix v ''oneof=''"
  using assms by (auto simp: HasPrefix_def prefix_def)

lemma max_not_others:
  assumes "HasPrefix v ''max=''"
  shows "\<not> HasPrefix v ''min=''" and "v \<noteq> ''email''" and "\<not> HasPrefix v ''oneof=''"
  using assms by (auto simp: HasPrefix_def prefix_def)

lemma minBound_ungated:
  "Type (attrs s) \<noteq> ''string'' \<Longrightarrow> Type (attrs s) \<noteq> ''integer'' \<Longrightarrow> Type (attrs s) \<noteq> ''number''
     \<Longrightarrow> minBound pf v s = s"
  by (simp add: minBound_def Let_def)

lemma maxBound_ungated:
  "Type (attrs s) \<noteq> ''string'' \<Longrightarrow> Type (attrs s) \<noteq> ''integer'' \<Longrightarrow> Type (attrs s) \<noteq> ''number''
     \<Longrightarrow> maxBound pf v s = s"
  by (simp add: maxBound_def Let_def)

lemma applyValidation_ungated:
  assumes "HasPrefix v ''min='' \<or> HasPrefix v ''max=''"
    and "Type (attrs s) \<noteq> ''string''" "Type (attrs s) \<noteq> ''integer''" "Type (attrs s) \<noteq> ''number''"
  shows "applyValidation pf s v = s"
proof -
  from assms(1) have "v \<noteq> ''email''" "\<not> HasPrefix v ''oneof=''"
    using min_not_others(2,3) max_not_others(2,3) by blast+
  then show ?thesis
    by (simp add: applyValidation_def minBound_ungated [OF assms(2-4)]
        maxBound_ungated [OF assms(2-4)] emailFormat_def oneofEnum_def)
qed

lemma minBound_malformed:
  "HasPrefix v ''min='' \<longrightarrow> Atoi (drop 4 v) = None \<and> pf (drop 4 v) = None \<Longrightarrow> minBound pf v s = s"
  by (cases "HasPrefix v ''min=''") (simp_all add: minBound_def Let_def TrimPrefix_min)

lemma maxBound_malformed:
  "HasPrefix v ''max='' \<longrightarrow> Atoi (drop 4 v) = None \<and> pf (drop 4 v) = None \<Longrightarrow> maxBound pf v s = s"
  by (cases "HasPrefix v ''max=''") (simp_all add: maxBound_def Let_def TrimPrefix_max)

lemma applyValidation_malformed:
  assumes "HasPrefix v ''min='' \<or> HasPrefix v ''max=''"
    and "Atoi (drop 4 v) = None" and "pf (drop 4 v) = None"
  shows "applyValidation pf s v = s"
proof -
  from assms(1) have "v \<noteq> ''email''" "\<not> HasPrefix v ''oneof=''"
    using min_not_others(2,3) max_not_others(2,3) by blast+
  then show ?thesis
    using assms(2,3)
    by (simp add: applyValidation_def minBound_malformed maxBound_malformed
        emailFormat_def oneofEnum_def)
qed

text \<open>The lower bounds are written by the \<open>min=\<close> block only, the upper ones by \<open>max=\<close>.\<close>

lemma lower_maxBound:
  "MinLength (attrs (maxBound pf v s)) = MinLength (attrs s)
   \<and> Min_bound (attrs (maxBound pf v s)) = Min_bound (attrs s)"
  using maxBound_cases [of pf v s] by auto

lemma upper_minBound:
  "MaxLength (attrs (minBound pf v s)) = MaxLength (attrs s)
   \<and> Max_bound (attrs (minBound pf v s)) = Max_bound (attrs s)"
  using minBound_cases [of pf v s] by auto

lemma bounds_emailFormat:
  "MinLength (attrs (emailFormat v s)) = MinLength (attrs s)
   \<and> Min_bound (attrs (emailFormat v s)) = Min_bound (attrs s)
   \<and> MaxLength (attrs (emailFormat v s)) = MaxLength (attrs s)
   \<and> Max_bound (attrs (emailFormat v s)) = Max_bound (attrs s)"
  by (simp add: emailFormat_def)

lemma bounds_oneofEnum:
  "MinLength (attrs (oneofEnum v s)) = MinLength (attrs s)
   \<and> Min_bound (attrs (oneofEnum v s)) = Min_bound (attrs s)
   \<and> MaxLength (attrs (oneofEnum v s)) = MaxLength (attrs s)
   \<and> Max_bound (attrs (oneofEnum v s)) = Max_bound (attrs s)"
  by (simp add: oneofEnum_def)

lemma applyValidation_lower:
  assumes "HasPrefix v ''min='' \<longrightarrow> Atoi (drop 4 v) = None \<and> pf (drop 4 v) = None"
  shows "MinLength (attrs (applyValidation pf s v)) = MinLength (attrs s)
         \<and> Min_bound (attrs (applyValidation pf s v)) = Min_bound (attrs s)"
  by (simp add: applyValidation_def bounds_oneofEnum bounds_emailFormat lower_maxBound
      minBound_malformed [of v pf, OF assms])

lemma applyValidation_upper:
  assumes "HasPrefix v ''max='' \<longrightarrow> Atoi (drop 4 v) = None \<and> pf (drop 4 v) = None"
  shows "MaxLength (attrs (applyValidation pf s v)) = MaxLength (attrs s)
         \<and> Max_bound (attrs (applyValidation pf s v)) = Max_bound (attrs s)"
  by (simp add: applyValidation_def bounds_oneofEnum bounds_emailFormat upper_minBound
      maxBound_malformed [of v pf, OF assms])

lemma foldl_lower:
  assumes "\<forall>v \<in> set vs. HasPrefix v ''min='' \<longrightarrow> Atoi (drop 4 v) = None \<and> pf (drop 4 v) = None"
  shows "MinLength (attrs (foldl (applyValidation pf) s vs)) = MinLength (attrs s)
         \<and> Min_bound (attrs (foldl (applyValidation pf) s vs)) = Min_bound (attrs s)"
  using assms
proof (induction vs arbitrary: s)
  case Nil
  show ?case by simp
next
  case (Cons v vs)
  from Cons.prems have v: "HasPrefix v ''min='' \<longrightarrow> Atoi (drop 4 v) = None \<and> pf (drop 4 v) = None"
    and vs: "\<forall>v \<in> set vs. HasPrefix v ''min='' \<longrightarrow> Atoi (drop 4 v) = None \<and> pf (drop 4 v) = None"
    by simp_all
  from Cons.IH [of "applyValidation pf s v", OF vs] applyValidation_lower [of v pf s, OF v]
  show ?case by simp
qed

lemma foldl_upper:
  assumes "\<forall>v \<in> set vs. HasPrefix v ''max='' \<longrightarrow> Atoi (drop 4 v) = None \<and> pf (drop 4 v) = None"
  shows "MaxLength (attrs (foldl (applyValidation pf) s vs)) = MaxLength (attrs s)
         \<and> Max_bound (attrs (foldl (applyValidation pf) s vs)) = Max_bound (attrs s)"
  using assms
proof (induction vs arbitrary: s)
  case Nil
  show ?case by simp
next
  case (Cons v vs)
  from Cons.prems have v: "HasPrefix v ''max='' \<longrightarrow> Atoi (drop 4 v) = None \<and> pf (drop 4 v) = None"
    and vs: "\<forall>v \<in> set vs. HasPrefix v ''max='' \<longrightarrow> Atoi (drop 4 v) = None \<and> pf (drop 4 v) = None"
    by simp_all
  from Cons.IH [of "applyValidation pf s v", OF vs] applyValidation_upper [of v pf s, OF v]
  show ?case by simp
qed

lemma annotate_lower:
  assumes "\<forall>v \<in> set (Split (Tag_Get (ftag f) ''validate'') CHR '','').
             HasPrefix v ''min='' \<longrightarrow> Atoi (drop 4 v) = None \<and> pf (drop 4 v) = None"
  shows "MinLength (attrs (annotate pf f s)) = MinLength (attrs s)
         \<and> Min_bound (attrs (annotate pf f s)) = Min_bound (attrs s)"
  using foldl_lower [of _ pf, OF assms] by (simp add: annotate_def Let_def)

lemma annotate_upper:
  assumes "\<forall>v \<in> set (Split (Tag_Get (ftag f) ''validate'') CHR '','').
             HasPrefix v ''max='' \<longrightarrow> Atoi (drop 4 v) = None \<and> pf (drop 4 v) = None"
  shows "MaxLength (attrs (annotate pf f s)) = MaxLength (attrs s)
         \<and> Max_bound (attrs (annotate pf f s)) = Max_bound (attrs s)"
  using foldl_upper [of _ pf, OF assms] by (simp add: annotate_def Let_def)

text \<open>The node \<open>generateSchema\<close> returns carries no bound itself.\<close>

lemma deriveFields_unbounded:
  "unbounded (attrs s) \<Longrightarrow> unbounded (attrs (fst (deriveFields pf app fs s)))"
proof (induction fs arbitrary: s)
  case Nil
  then show ?case by simp
next
  case (Cons f rest)
  have "unbounded (attrs (addField pf f x s))" for x
    using Cons.prems by (simp add: addField_def Let_def unbounded_def)
  with Cons show ?case
    unfolding deriveFields_Cons by simp
qed

lemma generateSchema_unbounded:
  fixes pf :: "string \<Rightarrow> 'f option"
  shows "unbounded (attrs (fst (generateSchema pf app t)))"
proof (cases "deref t")
  case (TStruct name flds)
  have "unbounded (attrs (typed ''object'' :: 'f Schema))"
    by (simp add: typed_def emptyAttrs_def unbounded_def)
  then have "unbounded (attrs (fst (deriveFields pf app flds (typed ''object''))))"
    by (rule deriveFields_unbounded)
  with TStruct show ?thesis
    by (simp add: generateSchema.simps [of _ _ t] emptyAttrs_def unbounded_def)
qed (simp_all add: generateSchema.simps [of _ _ t] split_beta typed_def emptyAttrs_def unbounded_def)

lemma Properties_struct:
  assumes "name \<noteq> ''time.Time''" and "f \<in> set flds" and "Tag_Get (ftag f) ''json'' \<noteq> ''-''"
    and "distinct (map fieldName (filter (\<lambda>g. Tag_Get (ftag g) ''json'' \<noteq> ''-'') flds))"
  shows "map_of (Properties (fst (generateSchema pf app (TStruct name flds)))) (fieldName f) =
           Some (annotate pf f (fst (generateSchema pf app (ftype f))))"
  using assms(1) Properties_deriveFields [OF assms(2-4)]
  by (simp add: generateSchema.simps [of _ _ "TStruct name flds"])

section \<open>Bounds follow the node's type\<close>

text \<open>
  Claim C5. In every node of a derived schema, at any depth, a length bound
  (\<open>MinLength\<close>, \<open>MaxLength\<close>) is set only where the type is \<open>string\<close> and a numeric
  bound (\<open>Min\<close>, \<open>Max\<close>) only where it is \<open>integer\<close> or \<open>number\<close>; and a \<open>min=\<close> or
  \<open>max=\<close> token met on a node of any other type leaves the node as it was.
\<close>

theorem bound_type_gating:
  "boundsGated (fst (generateSchema ParseFloat app t))
   \<and> ((HasPrefix v ''min='' \<or> HasPrefix v ''max='')
        \<and> Type (attrs s) \<noteq> ''string'' \<and> Type (attrs s) \<noteq> ''integer'' \<and> Type (attrs s) \<noteq> ''number''
      \<longrightarrow> applyValidation ParseFloat s v = s)"
  using generateSchema_gated(1) [of ParseFloat app t] applyValidation_ungated [of v s ParseFloat]
  by blast

text \<open>
  A boolean field annotated \<open>min=1,max=5\<close>, with \<open>Atoi\<close> standing in for the float
  parser (it accepts both values): the node is the plain boolean node.
\<close>

theorem bound_type_gating_witness:
  "boundsGated (fst (generateSchema Atoi ()
      (TStruct ''Flags'' [Field ''Active'' [(''json'', ''active''), (''validate'', ''min=1,max=5'')] TBool])))
   \<and> map_of (Properties (fst (generateSchema Atoi ()
      (TStruct ''Flags'' [Field ''Active'' [(''json'', ''active''), (''validate'', ''min=1,max=5'')] TBool]))))
      ''active'' = Some (typed ''boolean'')
   \<and> applyValidation Atoi (typed ''boolean'') ''min=1''
       = typed ''boolean''"
proof -
  have ev: "map_of (Properties (fst (generateSchema Atoi ()
      (TStruct ''Flags'' [Field ''Active'' [(''json'', ''active''), (''validate'', ''min=1,max=5'')] TBool]))))
      ''active'' = Some (typed ''boolean'')"
    by (simp add: generateSchema.simps Tag_Get_def addField_def listedRequired_def fieldName_def
        annotate_def applyValidation_def minBound_def maxBound_def emailFormat_def oneofEnum_def
        HasPrefix_def TrimPrefix_def typed_def emptyAttrs_def upd_def)
  have pre: "HasPrefix ''min=1'' ''min='' \<or> HasPrefix ''min=1'' ''max=''"
    by (simp add: HasPrefix_def)
  have ty: "Type (attrs (typed ''boolean'' :: int Schema)) \<noteq> ''string''
     \<and> Type (attrs (typed ''boolean'' :: int Schema)) \<noteq> ''integer''
     \<and> Type (attrs (typed ''boolean'' :: int Schema)) \<noteq> ''number''"
    by (simp add: typed_def emptyAttrs_def)
  from bound_type_gating [of Atoi "()"
      "TStruct ''Flags'' [Field ''Active'' [(''json'', ''active''), (''validate'', ''min=1,max=5'')] TBool]"
      "''min=1''" "typed ''boolean''"] pre ty ev
  show ?thesis by blast
qed

section \<open>Bounds that do not parse\<close>

text \<open>
  Claim C6. For a kept field of a struct with distinct serialized names, derivation
  always produces the field's node; when every \<open>min=\<close> token of its \<open>validate\<close> tag has a
  value that parses neither as an integer nor as a float, the node has no lower bound
  (\<open>MinLength\<close> keeps its zero value, \<open>Min\<close> stays nil), and likewise for \<open>max=\<close> and
  the upper bounds (\<open>MaxLength\<close> and \<open>Max\<close> stay nil, they are not set to zero).
\<close>

theorem malformed_bound_dropped:
  assumes struct: "name \<noteq> ''time.Time''"
    and f: "f \<in> set flds" and kept: "Tag_Get (ftag f) ''json'' \<noteq> ''-''"
    and uniq: "distinct (map fieldName (filter (\<lambda>g. Tag_Get (ftag g) ''json'' \<noteq> ''-'') flds))"
  shows "\<exists>node.
      map_of (Properties (fst (generateSchema ParseFloat app (TStruct name flds)))) (fieldName f)
        = Some node
      \<and> ((\<forall>v \<in> set (Split (Tag_Get (ftag f) ''validate'') CHR '','').
             HasPrefix v ''min='' \<longrightarrow> Atoi (drop 4 v) = None \<and> ParseFloat (drop 4 v) = None)
          \<longrightarrow> MinLength (attrs node) = 0 \<and> Min_bound (attrs node) = None)
      \<and> ((\<forall>v \<in> set (Split (Tag_Get (ftag f) ''validate'') CHR '','').
             HasPrefix v ''max='' \<longrightarrow> Atoi (drop 4 v) = None \<and> ParseFloat (drop 4 v) = None)
          \<longrightarrow> MaxLength (attrs node) = None \<and> Max_bound (attrs node) = None)"
proof -
  let ?base = "fst (generateSchema ParseFloat app (ftype f))"
  let ?node = "annotate ParseFloat f ?base"
  have base: "MinLength (attrs ?base) = 0" "Min_bound (attrs ?base) = None"
    "MaxLength (attrs ?base) = None" "Max_bound (attrs ?base) = None"
    using generateSchema_unbounded [of ParseFloat app "ftype f"] by (simp_all add: unbounded_def)
  have "map_of (Properties (fst (generateSchema ParseFloat app (TStruct name flds)))) (fieldName f)
          = Some ?node"
    by (rule Properties_struct [OF struct f kept uniq])
  moreover have "MinLength (attrs ?node) = 0 \<and> Min_bound (attrs ?node) = None"
    if "\<forall>v \<in> set (Split (Tag_Get (ftag f) ''validate'') CHR '','').
          HasPrefix v ''min='' \<longrightarrow> Atoi (drop 4 v) = None \<and> ParseFloat (drop 4 v) = None"
    using annotate_lower [of f ParseFloat ?base, OF that] base by simp
  moreover have "MaxLength (attrs ?node) = None \<and> Max_bound (attrs ?node) = None"
    if "\<forall>v \<in> set (Split (Tag_Get (ftag f) ''validate'') CHR '','').
          HasPrefix v ''max='' \<longrightarrow> Atoi (drop 4 v) = None \<and> ParseFloat (drop 4 v) = None"
    using annotate_upper [of f ParseFloat ?base, OF that] base by simp
  ultimately show ?thesis by blast
qed

text \<open>
  A query field \<open>Limit int `validate:"min=abc,max=100"`\<close>, with \<open>Atoi\<close> standing in for
  the float parser: the malformed lower bound is absent, the upper bound is there.
\<close>

theorem malformed_bound_dropped_witness:
  "\<exists>node.
     map_of (Properties (fst (generateSchema Atoi ()
        (TStruct ''ListRequest''
           [Field ''Limit'' [(''query'', ''limit''), (''validate'', ''min=abc,max=100'')] TInt]))))
        ''Limit'' = Some node
     \<and> MinLength (attrs node) = 0 \<and> Min_bound (attrs node) = None
     \<and> Max_bound (attrs node) = Some 100"
proof -
  let ?f = "Field ''Limit'' [(''query'', ''limit''), (''validate'', ''min=abc,max=100'')] TInt"
  have h1: "''ListRequest'' \<noteq> ''time.Time''" by simp
  have h2: "?f \<in> set [?f]" by simp
  have h3: "Tag_Get (ftag ?f) ''json'' \<noteq> ''-''" by (simp add: Tag_Get_def)
  have h4: "distinct (map fieldName (filter (\<lambda>g. Tag_Get (ftag g) ''json'' \<noteq> ''-'') [?f]))"
    by (simp add: Tag_Get_def)
  have name: "fieldName ?f = ''Limit''" by (simp add: fieldName_def Tag_Get_def)
  have bad: "\<forall>v \<in> set (Split (Tag_Get (ftag ?f) ''validate'') CHR '','').
      HasPrefix v ''min='' \<longrightarrow> Atoi (drop 4 v) = None \<and> Atoi (drop 4 v) = None"
    by (simp add: Tag_Get_def HasPrefix_def Atoi_def digitVal_def)
  have ev: "Max_bound (attrs (the (map_of (Properties (fst (generateSchema Atoi ()
        (TStruct ''ListRequest'' [?f])))) ''Limit''))) = Some 100"
    by (simp add: generateSchema.simps Tag_Get_def addField_def listedRequired_def fieldName_def
        annotate_def applyValidation_def minBound_def maxBound_def emailFormat_def oneofEnum_def
        HasPrefix_def TrimPrefix_def typed_def emptyAttrs_def upd_def Atoi_def digitVal_def)
  from malformed_bound_dropped [OF h1 h2 h3 h4, of Atoi "()"] bad name
  obtain node where node: "map_of (Properties (fst (generateSchema Atoi ()
        (TStruct ''ListRequest'' [?f])))) ''Limit'' = Some node"
    and lower: "MinLength (attrs node) = 0 \<and> Min_bound (attrs node) = None"
    by auto
  from node ev have "Max_bound (attrs node) = Some 100" by simp
  with node lower show ?thesis by blast
qed

section \<open>Facts about the request pipeline\<close>

lemma bindInput_trace:
  "set (snd (bindInput c zero)) \<subseteq> {CallBindQueryParams, CallBind, CallBindPathParams}"
  by (simp add: bindInput_def split: sum.splits)

lemma bindInput_Inl: "fst (bindInput c zero) = Inl msg \<Longrightarrow> msg \<noteq> []"
  by (auto simp: bindInput_def split: sum.splits if_splits)

lemma bindAndValidate_invalid:
  "fst (bindInput c zero) = Inr req \<Longrightarrow> validator req = Some err \<Longrightarrow>
     bindAndValidate validator (Some zero) c =
       (Inl (''Validation failed: '' @ err), snd (bindInput c zero) @ [CallValidate req])"
  by (auto simp: bindAndValidate_def split: prod.splits)

lemma bindAndValidate_valid:
  "fst (bindInput c zero) = Inr req \<Longrightarrow> validator req = None \<Longrightarrow>
     bindAndValidate validator (Some zero) c =
       (Inr (Some req), snd (bindInput c zero) @ [CallValidate req])"
  by (auto simp: bindAndValidate_def split: prod.splits)

lemma bindAndValidate_unbound:
  "fst (bindInput c zero) = Inl msg \<Longrightarrow>
     bindAndValidate validator (Some zero) c = (Inl msg, snd (bindInput c zero))"
  by (auto simp: bindAndValidate_def split: prod.splits)

lemma bindAndValidate_Inl:
  assumes "fst (bindAndValidate validator requestType c) = Inl msg"
  shows "msg \<noteq> []"
proof (cases requestType)
  case None
  with assms show ?thesis by (simp add: bindAndValidate_def)
next
  case (Some zero)
  show ?thesis
  proof (cases "fst (bindInput c zero)")
    case (Inl m)
    from bindAndValidate_unbound [OF Inl, of validator] assms Some have "msg = m" by simp
    with bindInput_Inl [OF Inl] show ?thesis by simp
  next
    case (Inr req)
    show ?thesis
    proof (cases "validator req")
      case None
      from bindAndValidate_valid [of c zero req validator, OF Inr None] assms Some show ?thesis by simp
    next
      case (Some err)
      from bindAndValidate_invalid [of c zero req validator, OF Inr Some] assms \<open>requestType = Some zero\<close>
      show ?thesis by auto
    qed
  qed
qed

lemma createEchoHandler_Inl:
  "fst (bindAndValidate validator requestType c) = Inl msg \<Longrightarrow>
     createEchoHandler validator isZero handler requestType routeConfig c =
       (badRequest msg, snd (bindAndValidate validator requestType c))"
  by (auto simp: createEchoHandler_def split: prod.splits)

lemma createEchoHandler_Inr:
  "fst (bindAndValidate validator requestType c) = Inr args \<Longrightarrow>
     createEchoHandler validator isZero handler requestType routeConfig c =
       (respond isZero routeConfig (handler args),
        snd (bindAndValidate validator requestType c) @ [CallHandler args])"
  by (auto simp: createEchoHandler_def split: prod.splits)

text \<open>A failure reported by a handler with two or more results.\<close>

lemma respond_failure:
  "length results > 1 \<Longrightarrow> last results = ErrorValue e \<Longrightarrow>
     respond isZero routeConfig results =
       JSON (case e of HTTPError code message \<Rightarrow> code | PlainError text \<Rightarrow> 500)
         \<lparr>Data = None,
          Error = (case e of HTTPError code message \<Rightarrow> message | PlainError text \<Rightarrow> text),
          Success = False\<rparr>"
  by (cases e) (auto simp: respond_def)

lemma respond_exclusive:
  "respond isZero routeConfig results = JSON code env \<Longrightarrow>
     (Success env \<longrightarrow> Error env = []) \<and> (\<not> Success env \<longrightarrow> Data env = None)"
  by (auto simp: respond_def split: if_splits option.splits herror.splits)

section \<open>Validation gates the handler\<close>

text \<open>
  Claim C1. For an operation with an input type: when binding succeeded with the
  instance \<open>req\<close> and the validator reports an error on it, the reply is status 400 with
  the envelope \<open>{error: "Validation failed: ...", success: false}\<close>, and the calls made
  are the binding calls and the validator call only, so the handler is never called.
  And whenever the validator was called on an instance, that instance is the one
  binding succeeded with.
\<close>

theorem validation_gating:
  "(fst (bindInput c zero) = Inr req \<and> validator req = Some err \<longrightarrow>
      createEchoHandler validator isZero handler (Some zero) routeConfig c =
        (JSON 400 \<lparr>Data = None, Error = ''Validation failed: '' @ err, Success = False\<rparr>,
         snd (bindInput c zero) @ [CallValidate req])
      \<and> (\<forall>args. CallHandler args
             \<notin> set (snd (createEchoHandler validator isZero handler (Some zero) routeConfig c))))
   \<and> (CallValidate r
         \<in> set (snd (createEchoHandler validator isZero handler (Some zero) routeConfig c))
       \<longrightarrow> fst (bindInput c zero) = Inr r)"
proof (intro conjI impI)
  assume a: "fst (bindInput c zero) = Inr req \<and> validator req = Some err"
  then have b: "bindAndValidate validator (Some zero) c =
      (Inl (''Validation failed: '' @ err), snd (bindInput c zero) @ [CallValidate req])"
    by (simp add: bindAndValidate_invalid)
  then have "fst (bindAndValidate validator (Some zero) c) = Inl (''Validation failed: '' @ err)"
    by simp
  from createEchoHandler_Inl [OF this, of isZero handler routeConfig] b
  show e: "createEchoHandler validator isZero handler (Some zero) routeConfig c =
        (JSON 400 \<lparr>Data = None, Error = ''Validation failed: '' @ err, Success = False\<rparr>,
         snd (bindInput c zero) @ [CallValidate req])"
    by (simp add: badRequest_def)
  show "\<forall>args. CallHandler args
      \<notin> set (snd (createEchoHandler validator isZero handler (Some zero) routeConfig c))"
    using bindInput_trace [of c zero] by (auto simp: e)
next
  assume v: "CallValidate r
      \<in> set (snd (createEchoHandler validator isZero handler (Some zero) routeConfig c))"
  show "fst (bindInput c zero) = Inr r"
  proof (cases "fst (bindInput c zero)")
    case (Inl msg)
    from bindAndValidate_unbound [OF Inl, of validator]
    have "fst (bindAndValidate validator (Some zero) c) = Inl msg"
      and "snd (bindAndValidate validator (Some zero) c) = snd (bindInput c zero)" by simp_all
    with createEchoHandler_Inl [of validator "Some zero" c msg isZero handler routeConfig] v
    have "CallValidate r \<in> set (snd (bindInput c zero))" by simp
    with bindInput_trace [of c zero] show ?thesis by auto
  next
    case (Inr req)
    have "snd (createEchoHandler validator isZero handler (Some zero) routeConfig c) =
            snd (bindInput c zero) @ [CallValidate req]
          \<or> snd (createEchoHandler validator isZero handler (Some zero) routeConfig c) =
            snd (bindInput c zero) @ [CallValidate req, CallHandler (Some req)]"
    proof (cases "validator req")
      case None
      from bindAndValidate_valid [of c zero req validator, OF Inr None]
        createEchoHandler_Inr [of validator "Some zero" c "Some req" isZero handler routeConfig]
      show ?thesis by simp
    next
      case (Some err)
      from bindAndValidate_invalid [of c zero req validator, OF Inr Some]
        createEchoHandler_Inl [of validator "Some zero" c _ isZero handler routeConfig]
      show ?thesis by simp
    qed
    with v bindInput_trace [of c zero] have "r = req" by auto
    with Inr show ?thesis by simp
  qed
qed

text \<open>
  The test suite's "validation error" request: \<open>POST /users\<close> with only a name. The
  instance is the pair (name, email); the validator stands for \<open>required\<close> on the email.
\<close>

theorem validation_gating_witness:
  "createEchoHandler (\<lambda>req :: string \<times> string. if snd req = '''' then Some ''Email is required'' else None)
      (\<lambda>user. user = '''') (\<lambda>args. [Value ''created'', NilError]) (Some ('''', '''')) None
      \<lparr>RequestMethod = ''POST'', BindQueryParams = Inr,
       Bind = (\<lambda>zero. Inr (''John'', '''')), BindPathParams = Inr\<rparr>
   = (JSON 400 \<lparr>Data = None, Error = ''Validation failed: Email is required'', Success = False\<rparr>,
      [CallBind, CallBindPathParams, CallValidate (''John'', '''')])"
proof -
  let ?c = "\<lparr>RequestMethod = ''POST'', BindQueryParams = Inr,
       Bind = (\<lambda>zero :: string \<times> string. Inr (''John'', '''')), BindPathParams = Inr\<rparr>"
  let ?v = "\<lambda>req :: string \<times> string. if snd req = '''' then Some ''Email is required'' else None"
  have b: "bindInput ?c ('''', '''') = (Inr (''John'', ''''), [CallBind, CallBindPathParams])"
    by (simp add: bindInput_def)
  then have h: "fst (bindInput ?c ('''', '''')) = Inr (''John'', '''') \<and> ?v (''John'', '''') = Some ''Email is required''"
    by simp
  note g = validation_gating [of ?c "('''', '''')" "(''John'', '''')" ?v "''Email is required''"
      "\<lambda>user. user = ''''" "\<lambda>args. [Value ''created'', NilError]" None]
  note e = conjunct1 [OF mp [OF conjunct1 [OF g] h]]
  from e b show ?thesis by simp
qed

section \<open>Path parameters are bound last\<close>

text \<open>
  Echo's path binding, for a request type that is a flat struct of exported string
  fields. \<open>DefaultBinder.BindPathParams\<close> collects the route's parameter names and values
  into a map (a later duplicate name overwrites an earlier one) and hands it to
  \<open>bindData\<close> with the tag \<open>param\<close>. \<open>bindData\<close> visits the fields in order: a field
  without that tag is passed over, a field whose tag names an entry receives the entry's
  value, and a tag that matches no key exactly is matched without regard to case
  (\<open>strings.EqualFold\<close>, here on ASCII letters; where several keys match, Go takes any of
  them and the model the first). Setting a string field cannot fail. This is Echo's
  code, not the repository's; an instance maps each declared field name to its value,
  the zero instance maps every name to the empty string.
\<close>

datatype sfield = SField (sname: string) (stag: "(string \<times> string) list")

definition asciiLower :: "char \<Rightarrow> char" where
  "asciiLower ch =
     (let n = (of_char ch :: nat) in if 65 \<le> n \<and> n \<le> 90 then char_of (n + 32) else ch)"

definition EqualFold :: "string \<Rightarrow> string \<Rightarrow> bool" where
  "EqualFold s t = (map asciiLower s = map asciiLower t)"

definition lookupData :: "(string \<times> string) list \<Rightarrow> string \<Rightarrow> string option" where
  "lookupData data name =
     (case map_of (rev data) name of
        Some v \<Rightarrow> Some v
      | None \<Rightarrow>
          (case filter (\<lambda>kv. EqualFold (fst kv) name) data of
             [] \<Rightarrow> None
           | kv # _ \<Rightarrow> Some (snd kv)))"

definition bindData ::
  "string \<Rightarrow> sfield list \<Rightarrow> (string \<times> string) list \<Rightarrow> (string \<Rightarrow> string) \<Rightarrow> string \<Rightarrow> string" where
  "bindData tag flds data inst =
     foldl (\<lambda>i f.
        (let inputFieldName = Tag_Get (stag f) tag
         in if inputFieldName = [] then i
            else (case lookupData data inputFieldName of
                    None \<Rightarrow> i
                  | Some v \<Rightarrow> i(sname f := v))))
       inst flds"

definition echoBindPathParams ::
  "sfield list \<Rightarrow> (string \<times> string) list \<Rightarrow> (string \<Rightarrow> string) \<Rightarrow> string + (string \<Rightarrow> string)" where
  "echoBindPathParams flds params inst = Inr (bindData ''param'' flds params inst)"

lemma bindData_Nil [simp]: "bindData tag [] data inst = inst"
  by (simp add: bindData_def)

lemma bindData_Cons:
  "bindData tag (f # flds) data inst =
     bindData tag flds data
       (if Tag_Get (stag f) tag = [] then inst
        else (case lookupData data (Tag_Get (stag f) tag) of
                None \<Rightarrow> inst
              | Some v \<Rightarrow> inst(sname f := v)))"
  by (simp add: bindData_def Let_def)

lemma bindData_other:
  "n \<notin> sname ` set flds \<Longrightarrow> bindData tag flds data inst n = inst n"
proof (induction flds arbitrary: inst)
  case Nil
  show ?case by simp
next
  case (Cons f flds)
  from Cons.prems have n: "n \<notin> sname ` set flds" and nf: "n \<noteq> sname f" by auto
  show ?case
    unfolding bindData_Cons Cons.IH [OF n] using nf by (simp split: option.splits)
qed

lemma bindData_tagged:
  assumes "distinct (map sname flds)" and "f \<in> set flds"
    and "Tag_Get (stag f) tag = p" and "p \<noteq> []" and "lookupData data p = Some v"
  shows "bindData tag flds data inst (sname f) = v"
  using assms(1,2)
proof (induction flds arbitrary: inst)
  case Nil
  then show ?case by simp
next
  case (Cons g flds)
  from Cons.prems(1) have d: "distinct (map sname flds)" and g: "sname g \<notin> sname ` set flds"
    by simp_all
  show ?case
  proof (cases "f = g")
    case True
    with g have "sname f \<notin> sname ` set flds" by simp
    from bindData_other [OF this] True assms(3-5) show ?thesis
      unfolding bindData_Cons by simp
  next
    case False
    with Cons.prems(2) have "f \<in> set flds" by simp
    from Cons.IH [OF d this] show ?thesis
      unfolding bindData_Cons by simp
  qed
qed

lemma bindData_untagged:
  assumes "distinct (map sname flds)" and "f \<in> set flds" and "Tag_Get (stag f) tag = []"
  shows "bindData tag flds data inst (sname f) = inst (sname f)"
  using assms(1,2)
proof (induction flds arbitrary: inst)
  case Nil
  then show ?case by simp
next
  case (Cons g flds)
  from Cons.prems(1) have d: "distinct (map sname flds)" and g: "sname g \<notin> sname ` set flds"
    by simp_all
  show ?case
  proof (cases "f = g")
    case True
    with g have "sname f \<notin> sname ` set flds" by simp
    from bindData_other [OF this] True assms(3) show ?thesis
      unfolding bindData_Cons by simp
  next
    case False
    with Cons.prems(2) have fin: "f \<in> set flds" by simp
    with g have "sname f \<noteq> sname g" by (metis imageI)
    with Cons.IH [OF d fin] show ?thesis
      unfolding bindData_Cons by (simp split: option.splits)
  qed
qed

lemma lookupData_exact: "map_of (rev data) p = Some v \<Longrightarrow> lookupData data p = Some v"
  by (simp add: lookupData_def)

text \<open>
  Claim C2, as the code has it. For a request whose method is neither GET nor DELETE,
  the adapter calls \<open>c.Bind\<close> on the zero instance and then \<open>BindPathParams\<close> on what
  \<open>c.Bind\<close> produced, and the instance that reaches the validator and the handler is
  the output of \<open>BindPathParams\<close>. With Echo's path binding, a field whose \<open>param\<close> tag
  names a path variable holds that variable's value there, whatever \<open>c.Bind\<close> stored
  in it.
\<close>

theorem binding_precedence:
  assumes verb: "RequestMethod c \<noteq> ''GET''" "RequestMethod c \<noteq> ''DELETE''"
    and body: "Bind c zero = Inr r1"
    and echo: "BindPathParams c = echoBindPathParams flds params"
    and names: "distinct (map sname flds)"
    and f: "f \<in> set flds" and tag: "Tag_Get (stag f) ''param'' = p" "p \<noteq> []"
    and var: "map_of (rev params) p = Some v"
    and valid: "validator (bindData ''param'' flds params r1) = None"
  shows "bindData ''param'' flds params r1 (sname f) = v
         \<and> snd (createEchoHandler validator isZero handler (Some zero) routeConfig c) =
             [CallBind, CallBindPathParams, CallValidate (bindData ''param'' flds params r1),
              CallHandler (Some (bindData ''param'' flds params r1))]"
proof -
  let ?r2 = "bindData ''param'' flds params r1"
  from echo have path: "BindPathParams c r1 = Inr ?r2"
    by (simp add: echoBindPathParams_def)
  from verb body path have b: "bindInput c zero = (Inr ?r2, [CallBind, CallBindPathParams])"
    by (simp add: bindInput_def)
  then have "fst (bindInput c zero) = Inr ?r2" by simp
  from bindAndValidate_valid [of c zero ?r2 validator, OF this valid] b
  have "bindAndValidate validator (Some zero) c =
          (Inr (Some ?r2), [CallBind, CallBindPathParams, CallValidate ?r2])" by simp
  with createEchoHandler_Inr [of validator "Some zero" c "Some ?r2" isZero handler routeConfig]
  have "snd (createEchoHandler validator isZero handler (Some zero) routeConfig c) =
           [CallBind, CallBindPathParams, CallValidate ?r2, CallHandler (Some ?r2)]" by simp
  moreover have "?r2 (sname f) = v"
    by (rule bindData_tagged [OF names f tag lookupData_exact [OF var]])
  ultimately show ?thesis by simp
qed

text \<open>
  \<open>PUT /todos/7\<close> with the body \<open>{"id": "99", "title": "x"}\<close> and a request type whose
  \<open>ID\<close> field is tagged \<open>json:"id" param:"id"\<close>: the handler, which returns the id it is
  given, is given 7.
\<close>

theorem binding_precedence_witness:
  "bindData ''param''
      [SField ''ID'' [(''json'', ''id''), (''param'', ''id'')], SField ''Title'' [(''json'', ''title'')]]
      [(''id'', ''7'')] ((\<lambda>name. '''')(''ID'' := ''99'', ''Title'' := ''x'')) ''ID'' = ''7''
   \<and> fst (createEchoHandler Map.empty (\<lambda>id :: string. id = '''')
      (\<lambda>args. case args of None \<Rightarrow> [] | Some todo \<Rightarrow> [Value (todo ''ID''), NilError])
      (Some (\<lambda>name. '''')) None
      \<lparr>RequestMethod = ''PUT'', BindQueryParams = Inr,
       Bind = (\<lambda>inst. Inr (inst(''ID'' := ''99'', ''Title'' := ''x''))),
       BindPathParams = echoBindPathParams
         [SField ''ID'' [(''json'', ''id''), (''param'', ''id'')], SField ''Title'' [(''json'', ''title'')]]
         [(''id'', ''7'')]\<rparr>)
     = JSON 200 \<lparr>Data = Some (Value ''7''), Error = '''', Success = True\<rparr>"
proof -
  let ?flds = "[SField ''ID'' [(''json'', ''id''), (''param'', ''id'')],
                SField ''Title'' [(''json'', ''title'')]]"
  let ?c = "\<lparr>RequestMethod = ''PUT'', BindQueryParams = Inr,
       Bind = (\<lambda>inst :: string \<Rightarrow> string. Inr (inst(''ID'' := ''99'', ''Title'' := ''x''))),
       BindPathParams = echoBindPathParams ?flds [(''id'', ''7'')]\<rparr>"
  let ?r1 = "(\<lambda>name :: string. (''''::string))(''ID'' := ''99'', ''Title'' := ''x'')"
  have h1: "RequestMethod ?c \<noteq> ''GET''" and h2: "RequestMethod ?c \<noteq> ''DELETE''" by simp_all
  have h3: "Bind ?c (\<lambda>name. '''') = Inr ?r1" by simp
  have h4: "BindPathParams ?c = echoBindPathParams ?flds [(''id'', ''7'')]" by simp
  have h5: "distinct (map sname ?flds)" by simp
  have h6: "SField ''ID'' [(''json'', ''id''), (''param'', ''id'')] \<in> set ?flds" by simp
  have h7: "Tag_Get (stag (SField ''ID'' [(''json'', ''id''), (''param'', ''id'')])) ''param'' = ''id''"
    by (simp add: Tag_Get_def)
  have h8: "''id'' \<noteq> []" by simp
  have h9: "map_of (rev [(''id'', ''7'')]) ''id'' = Some ''7''" by simp
  have h10: "(Map.empty :: (string \<Rightarrow> string) \<Rightarrow> string option)
      (bindData ''param'' ?flds [(''id'', ''7'')] ?r1) = None" by simp
  note t = binding_precedence [where c = ?c and zero = "\<lambda>name. ''''" and validator = Map.empty
      and isZero = "\<lambda>id :: string. id = ''''"
      and handler = "\<lambda>args. case args of None \<Rightarrow> [] | Some todo \<Rightarrow> [Value (todo ''ID''), NilError]"
      and routeConfig = None, OF h1 h2 h3 h4 h5 h6 h7 h8 h9 h10]
  from t have v: "bindData ''param'' ?flds [(''id'', ''7'')] ?r1 ''ID'' = ''7''" by simp
  have "fst (createEchoHandler Map.empty (\<lambda>id :: string. id = '''')
      (\<lambda>args. case args of None \<Rightarrow> [] | Some todo \<Rightarrow> [Value (todo ''ID''), NilError])
      (Some (\<lambda>name. '''')) None ?c)
     = JSON 200 \<lparr>Data = Some (Value (bindData ''param'' ?flds [(''id'', ''7'')] ?r1 ''ID'')),
         Error = '''', Success = True\<rparr>"
    using v by (simp add: createEchoHandler_def bindAndValidate_def bindInput_def
        echoBindPathParams_def respond_def)
  with v show ?thesis by simp
qed

text \<open>
  The same request against a request type whose \<open>ID\<close> field is tagged \<open>json:"id"\<close> only,
  so that the field and the path variable share the name \<open>id\<close>: the handler is given
  the body's 99, not the path's 7.
\<close>

theorem binding_precedence_counterexample:
  "fst (createEchoHandler Map.empty (\<lambda>id :: string. id = '''')
      (\<lambda>args. case args of None \<Rightarrow> [] | Some todo \<Rightarrow> [Value (todo ''ID''), NilError])
      (Some (\<lambda>name. '''')) None
      \<lparr>RequestMethod = ''PUT'', BindQueryParams = Inr,
       Bind = (\<lambda>inst. Inr (inst(''ID'' := ''99'', ''Title'' := ''x''))),
       BindPathParams = echoBindPathParams
         [SField ''ID'' [(''json'', ''id'')], SField ''Title'' [(''json'', ''title'')]]
         [(''id'', ''7'')]\<rparr>)
     = JSON 200 \<lparr>Data = Some (Value ''99''), Error = '''', Success = True\<rparr>"
  by (simp add: createEchoHandler_def bindAndValidate_def bindInput_def
      echoBindPathParams_def bindData_def Tag_Get_def respond_def)

section \<open>Failures reported by the handler\<close>

text \<open>
  Claim C3 at a handler whose only result is the error (\<open>func(c echo.Context) error\<close>,
  as \<open>deleteTodo\<close> of the example application) and that returns
  \<open>echo.NewHTTPError(404, "todo not found")\<close> on a DELETE request: the error test is
  guarded by \<open>len(results) > 1\<close>, so the error is taken for the payload and the reply is
  status 200 with \<open>success: true\<close>.
\<close>

theorem error_only_handler_reply:
  "fst (createEchoHandler (Map.empty :: unit \<Rightarrow> string option) (\<lambda>value :: unit. True)
      (\<lambda>args. [ErrorValue (HTTPError 404 ''todo not found'')]) None None
      \<lparr>RequestMethod = ''DELETE'', BindQueryParams = Inr, Bind = Inr, BindPathParams = Inr\<rparr>)
   = JSON 200 \<lparr>Data = Some (ErrorValue (HTTPError 404 ''todo not found'')), Error = '''',
       Success = True\<rparr>"
  by (simp add: createEchoHandler_def bindAndValidate_def respond_def)

text \<open>
  With a second result in front of the error, as the claim's table has it: the carried
  status and message, or 500 and the error's text.
\<close>

lemma failure_reply_two_results:
  "respond isZero routeConfig [v, ErrorValue (HTTPError code message)] =
     JSON code \<lparr>Data = None, Error = message, Success = False\<rparr>
   \<and> respond isZero routeConfig [v, ErrorValue (PlainError text)] =
     JSON 500 \<lparr>Data = None, Error = text, Success = False\<rparr>"
  by (simp add: respond_def)

section \<open>Replies without failure\<close>

text \<open>
  Claim C7. When binding and validation let the request through and the handler's
  results report no failure: no result at all, or a first result that is the zero value,
  gives status 204 without a body; otherwise the reply is the envelope
  \<open>{data: result, success: true}\<close> with the route's \<open>SuccessStatus\<close> when it is set
  (positive), and 200 when it is not or no route configuration was given.
\<close>

theorem success_reply:
  assumes "fst (bindAndValidate validator requestType c) = Inr args"
    and "\<not> reportsFailure (handler args)"
  shows "fst (createEchoHandler validator isZero handler requestType routeConfig c) =
     (if handler args = [] \<or> IsZero isZero (hd (handler args)) then NoContent 204
      else JSON (case routeConfig of
                   None \<Rightarrow> 200
                 | Some r \<Rightarrow> if SuccessStatus r > 0 then SuccessStatus r else 200)
             \<lparr>Data = Some (hd (handler args)), Error = '''', Success = True\<rparr>)"
proof -
  from assms(2) have "handler args = [] \<or> asError (last (handler args)) = None"
    by (simp add: reportsFailure_def)
  then have "respond isZero routeConfig (handler args) =
     (if handler args = [] \<or> IsZero isZero (hd (handler args)) then NoContent 204
      else JSON (case routeConfig of
                   None \<Rightarrow> 200
                 | Some r \<Rightarrow> if SuccessStatus r > 0 then SuccessStatus r else 200)
             \<lparr>Data = Some (hd (handler args)), Error = '''', Success = True\<rparr>)"
    by (auto simp: respond_def)
  with createEchoHandler_Inr [OF assms(1), of isZero handler routeConfig] show ?thesis
    by simp
qed

text \<open>
  The test suite's \<open>POST /create\<close> with \<open>SuccessStatus: 201\<close>, and a handler returning
  the zero value on a route without configuration.
\<close>

theorem success_reply_witness:
  "fst (createEchoHandler (Map.empty :: string \<Rightarrow> string option) (\<lambda>user :: string. user = '''')
      (\<lambda>args. [Value ''John'', NilError]) (Some '''') 
      (Some \<lparr>Summary = '''', Description = '''', Tags = [], SuccessStatus = 201\<rparr>)
      \<lparr>RequestMethod = ''POST'', BindQueryParams = Inr, Bind = Inr, BindPathParams = Inr\<rparr>)
   = JSON 201 \<lparr>Data = Some (Value ''John''), Error = '''', Success = True\<rparr>
   \<and> fst (createEchoHandler (Map.empty :: string \<Rightarrow> string option) (\<lambda>user :: string. user = '''')
      (\<lambda>args. [Value '''', NilError]) (Some '''') None
      \<lparr>RequestMethod = ''POST'', BindQueryParams = Inr, Bind = Inr, BindPathParams = Inr\<rparr>)
   = NoContent 204"
proof -
  let ?c = "\<lparr>RequestMethod = ''POST'', BindQueryParams = Inr, Bind = Inr,
     BindPathParams = (Inr :: string \<Rightarrow> string + string)\<rparr>"
  let ?v = "Map.empty :: string \<Rightarrow> string option"
  have b: "fst (bindAndValidate ?v (Some '''') ?c) = Inr (Some '''')"
    by (simp add: bindAndValidate_def bindInput_def)
  have n1: "\<not> reportsFailure ((\<lambda>args :: string option. [Value ''John'', NilError]) (Some ''''))"
    by (simp add: reportsFailure_def)
  have n2: "\<not> reportsFailure ((\<lambda>args :: string option. [Value ('''' :: string), NilError]) (Some ''''))"
    by (simp add: reportsFailure_def)
  from success_reply [where handler = "\<lambda>args. [Value ''John'', NilError]"
      and isZero = "\<lambda>user :: string. user = ''''"
      and routeConfig = "Some \<lparr>Summary = '''', Description = '''', Tags = [], SuccessStatus = 201\<rparr>",
      OF b n1]
    success_reply [where handler = "\<lambda>args. [Value '''', NilError]"
      and isZero = "\<lambda>user :: string. user = ''''" and routeConfig = None, OF b n2]
  show ?thesis by simp
qed

section \<open>The envelope\<close>

text \<open>
  Claim C10, as the code has it. Every envelope the adapter sends has an empty error
  message when \<open>success\<close> is true and no payload when \<open>success\<close> is false. A binding or
  validation failure is answered with status 400, \<open>success: false\<close> and a message that
  is not empty. A failure reported by a handler with two or more results is answered
  with \<open>success: false\<close>, no payload, and the message the error carries, as it is.
\<close>

theorem envelope_exclusive:
  "(fst (createEchoHandler validator isZero handler requestType routeConfig c) = JSON code env
      \<longrightarrow> (Success env \<longrightarrow> Error env = '''') \<and> (\<not> Success env \<longrightarrow> Data env = None))
   \<and> (fst (bindAndValidate validator requestType c) = Inl msg
      \<longrightarrow> msg \<noteq> ''''
          \<and> fst (createEchoHandler validator isZero handler requestType routeConfig c) =
              JSON 400 \<lparr>Data = None, Error = msg, Success = False\<rparr>)
   \<and> (fst (bindAndValidate validator requestType c) = Inr args
        \<and> length (handler args) > 1 \<and> last (handler args) = ErrorValue e
      \<longrightarrow> fst (createEchoHandler validator isZero handler requestType routeConfig c) =
            JSON (case e of HTTPError status message \<Rightarrow> status | PlainError text \<Rightarrow> 500)
              \<lparr>Data = None,
               Error = (case e of HTTPError status message \<Rightarrow> message | PlainError text \<Rightarrow> text),
               Success = False\<rparr>)"
proof -
  have p1: "(Success env \<longrightarrow> Error env = '''') \<and> (\<not> Success env \<longrightarrow> Data env = None)"
    if j: "fst (createEchoHandler validator isZero handler requestType routeConfig c) = JSON code env"
  proof (cases "fst (bindAndValidate validator requestType c)")
    case (Inl m)
    from createEchoHandler_Inl [OF Inl, of isZero handler routeConfig] j
    have "env = \<lparr>Data = None, Error = m, Success = False\<rparr>"
      by (simp add: badRequest_def)
    then show ?thesis by simp
  next
    case (Inr a)
    from createEchoHandler_Inr [OF Inr, of isZero handler routeConfig] j
    have "respond isZero routeConfig (handler a) = JSON code env" by simp
    then show ?thesis by (rule respond_exclusive)
  qed
  have p2: "msg \<noteq> ''''
      \<and> fst (createEchoHandler validator isZero handler requestType routeConfig c) =
          JSON 400 \<lparr>Data = None, Error = msg, Success = False\<rparr>"
    if i: "fst (bindAndValidate validator requestType c) = Inl msg"
    using bindAndValidate_Inl [OF i] createEchoHandler_Inl [OF i, of isZero handler routeConfig]
    by (simp add: badRequest_def)
  have p3: "fst (createEchoHandler validator isZero handler requestType routeConfig c) =
            JSON (case e of HTTPError status message \<Rightarrow> status | PlainError text \<Rightarrow> 500)
              \<lparr>Data = None,
               Error = (case e of HTTPError status message \<Rightarrow> message | PlainError text \<Rightarrow> text),
               Success = False\<rparr>"
    if a: "fst (bindAndValidate validator requestType c) = Inr args
        \<and> length (handler args) > 1 \<and> last (handler args) = ErrorValue e"
  proof -
    from a have r: "fst (bindAndValidate validator requestType c) = Inr args"
      and l: "length (handler args) > 1" and e: "last (handler args) = ErrorValue e" by simp_all
    from createEchoHandler_Inr [OF r, of isZero handler routeConfig]
      respond_failure [OF l e, of isZero routeConfig]
    show ?thesis by simp
  qed
  from p1 p2 p3 show ?thesis by blast
qed

text \<open>
  The test suite's \<open>GET /error\<close>: the handler returns the zero user and
  \<open>echo.NewHTTPError(404, "user not found")\<close>.
\<close>

theorem envelope_exclusive_witness:
  "fst (createEchoHandler (Map.empty :: unit \<Rightarrow> string option) (\<lambda>user :: string. user = '''')
      (\<lambda>args. [Value '''', ErrorValue (HTTPError 404 ''user not found'')]) None None
      \<lparr>RequestMethod = ''GET'', BindQueryParams = Inr, Bind = Inr, BindPathParams = Inr\<rparr>)
   = JSON 404 \<lparr>Data = None, Error = ''user not found'', Success = False\<rparr>"
proof -
  let ?c = "\<lparr>RequestMethod = ''GET'', BindQueryParams = Inr, Bind = Inr,
     BindPathParams = (Inr :: unit \<Rightarrow> string + unit)\<rparr>"
  let ?h = "\<lambda>args :: unit option. [Value ('''' :: string), ErrorValue (HTTPError 404 ''user not found'')]"
  have h: "fst (bindAndValidate (Map.empty :: unit \<Rightarrow> string option) None ?c) = Inr None
        \<and> length (?h None) > 1 \<and> last (?h None) = ErrorValue (HTTPError 404 ''user not found'')"
    by (simp add: bindAndValidate_def)
  note g = envelope_exclusive [where validator = "Map.empty :: unit \<Rightarrow> string option"
      and requestType = None and c = ?c and handler = ?h and args = None
      and e = "HTTPError 404 ''user not found''" and isZero = "\<lambda>user :: string. user = ''''"
      and routeConfig = None]
  from mp [OF conjunct2 [OF conjunct2 [OF g]] h] show ?thesis by simp
qed

text \<open>
  A handler whose error has an empty text (\<open>errors.New("")\<close>): the failure envelope's
  error message is empty.
\<close>

theorem envelope_exclusive_counterexample:
  "fst (createEchoHandler (Map.empty :: unit \<Rightarrow> string option) (\<lambda>user :: string. user = '''')
      (\<lambda>args. [Value '''', ErrorValue (PlainError '''')]) None None
      \<lparr>RequestMethod = ''GET'', BindQueryParams = Inr, Bind = Inr, BindPathParams = Inr\<rparr>)
   = JSON 500 \<lparr>Data = None, Error = '''', Success = False\<rparr>"
  by (simp add: createEchoHandler_def bindAndValidate_def respond_def)

section \<open>What registration rejects\<close>

text \<open>
  Claim C8, as the code has it. \<open>registerRoute\<close> panics exactly when the handler is not
  a function (a nil handler included); every function is registered, whatever its
  parameters are.
\<close>

theorem registration_rejects_non_functions:
  "isl (registerRoute app method path handler opts)
     = (\<forall>ins outs. handler \<noteq> Some (TFunc ins outs))"
proof (cases handler)
  case None
  then show ?thesis by (simp add: registerRoute_def)
next
  case (Some handlerType)
  then show ?thesis by (cases handlerType) (simp_all add: registerRoute_def Let_def)
qed

text \<open>A string given as the handler is refused.\<close>

theorem registration_rejects_non_functions_witness:
  "isl (registerRoute New ''GET'' ''/health'' (Some TString) [])"
  using registration_rejects_non_functions [of New "''GET''" "''/health''" "Some TString" "[]"]
  by simp

text \<open>
  \<open>func(n int) error\<close> takes no context, and is registered all the same.
\<close>

theorem registration_counterexample:
  "\<not> callableWithContext (Some (TFunc [TInt] [TInterface ''error'']))
   \<and> registerRoute New ''GET'' ''/count'' (Some (TFunc [TInt] [TInterface ''error''])) [] =
       Inr \<lparr>routes =
              [\<lparr>Method = ''GET'', Path = ''/count'', Handler = TFunc [TInt] [TInterface ''error''],
                RouteSummary = '''', RouteDescription = '''', RouteTags = [],
                RequestType = None, ResponseType = Some (TInterface ''error''),
                RouteConfig = None\<rparr>],
            echoRoutes = [(''GET'', ''/count'')]\<rparr>"
  by (simp add: callableWithContext_def contextLike_def registerRoute_def New_def)

end
